theory Spec2Isabelle
  imports Main "HOL-Library.Sublist"
begin

section \<open>Task documents (backend/models/Task.js)\<close>

text \<open>
  Dates are milliseconds since the epoch; a number outside the range of the language's
  dates stands for a value that does not denote a date. The \<open>status\<close> and \<open>priority\<close>
  paths are the enums of the schema. Strings are sequences of ASCII characters, so the
  length of a list of characters is the length the schema's validators measure. The
  generated ids of audit entries and comments and the \<open>createdAt\<close>/\<open>updatedAt\<close> stamps
  are not part of the model.
\<close>

type_synonym oid = nat
type_synonym date = int

definition valid_date :: "date \<Rightarrow> bool" where
  "valid_date x = (- 8640000000000000 \<le> x \<and> x \<le> 8640000000000000)"

text \<open>
  An object id is a number of twelve bytes. Its string form is twenty-four lower-case
  hexadecimal digits; a string is cast to an id when it consists of twenty-four
  hexadecimal digits, of either case, so that an id has several spellings. (The form of
  twelve arbitrary characters, which some versions of the driver cast as well, is left
  out.)
\<close>

fun to_hex :: "nat \<Rightarrow> nat \<Rightarrow> string" where
  "to_hex 0 n = []"
| "to_hex (Suc k) n = to_hex k (n div 16) @ [''0123456789abcdef'' ! (n mod 16)]"

definition toString :: "oid \<Rightarrow> string" where
  "toString n = to_hex 24 n"

definition hex_value :: "char \<Rightarrow> nat option" where
  "hex_value =
     map_of [(CHR ''0'', 0), (CHR ''1'', 1), (CHR ''2'', 2), (CHR ''3'', 3), (CHR ''4'', 4),
             (CHR ''5'', 5), (CHR ''6'', 6), (CHR ''7'', 7), (CHR ''8'', 8), (CHR ''9'', 9),
             (CHR ''a'', 10), (CHR ''b'', 11), (CHR ''c'', 12), (CHR ''d'', 13),
             (CHR ''e'', 14), (CHR ''f'', 15),
             (CHR ''A'', 10), (CHR ''B'', 11), (CHR ''C'', 12), (CHR ''D'', 13),
             (CHR ''E'', 14), (CHR ''F'', 15)]"

definition from_hex :: "string \<Rightarrow> nat option" where
  "from_hex s =
     fold (\<lambda>c acc. case acc of
                      None \<Rightarrow> None
                    | Some a \<Rightarrow> map_option (\<lambda>v. 16 * a + v) (hex_value c))
       s (Some 0)"

definition castObjectId :: "string \<Rightarrow> oid option" where
  "castObjectId s = (if length s = 24 then from_hex s else None)"

text \<open>The \<open>trim\<close> setter of the schema removes the white space at both ends of a string.\<close>

definition whitespace :: "char \<Rightarrow> bool" where
  "whitespace c = (c \<in> set [CHR 0x09, CHR 0x0A, CHR 0x0B, CHR 0x0C, CHR 0x0D, CHR 0x20])"

definition trim :: "string \<Rightarrow> string" where
  "trim s = rev (dropWhile whitespace (rev (dropWhile whitespace s)))"

datatype status = ToDo | InProgress | Completed

datatype priority = High | Medium | Low

datatype action =
  Created | Updated | Status_changed | Priority_changed | Assigned | Reassigned
  | Comment_added | Attachment_added | Attachment_removed

datatype mixed = MString string | MDate date | MStatus status | MPriority priority

record comment =
  c_user :: oid
  c_text :: string
  c_createdAt :: date

record attachment =
  att_id :: oid
  filename :: string
  originalName :: string
  mimetype :: string
  att_size :: nat
  uploadedBy :: oid
  uploadedAt :: date

record audit =
  a_user :: oid
  a_action :: action
  a_field :: "string option"
  a_oldValue :: "mixed option"
  a_newValue :: "mixed option"
  a_description :: "string option"
  a_timestamp :: date

record task =
  task_id :: oid
  title :: string
  description :: "string option"
  assignedTo :: oid
  createdBy :: oid
  status :: status
  priority :: priority
  dueDate :: date
  tags :: "string list"
  attachments :: "attachment list"
  comments :: "comment list"
  auditHistory :: "audit list"
  completedAt :: "date option"
  isDeleted :: bool

text \<open>
  A document is the task together with the bookkeeping of the document library and of the
  hooks: the snapshot \<open>_original\<close> taken by the \<open>post('init')\<close> hook (absent on a document
  that was never loaded), whether the document is new, the paths marked modified since it
  was loaded, and the paths that an assignment or a push has invalidated (a value that
  could not be cast, a pushed subdocument that breaks its schema; a pushed subdocument
  does not change before the save, so the model decides its validity at the push).
\<close>

record doc = task +
  original :: "task option"
  isNew :: bool
  modifiedPaths :: "string list"
  errors :: "string list"

definition init :: "task \<Rightarrow> doc" where
  "init t = task.extend t (doc.fields (Some t) False [] [])"

definition toObject :: "doc \<Rightarrow> task" where
  "toObject d = task.truncate d"

definition isModified :: "string \<Rightarrow> doc \<Rightarrow> bool" where
  "isModified p d = (p \<in> set (modifiedPaths d))"

definition markModified :: "string \<Rightarrow> doc \<Rightarrow> doc" where
  "markModified p d = d\<lparr>modifiedPaths := modifiedPaths d @ [p]\<rparr>"

definition invalidate :: "string \<Rightarrow> doc \<Rightarrow> doc" where
  "invalidate p d = d\<lparr>errors := errors d @ [p]\<rparr>"

text \<open>
  Assignments to the paths of a document. The value is cast and passed through the
  setters of the schema, and the path is marked modified when the result differs from the
  value held; a date that cannot be cast leaves the value and invalidates the path.
\<close>

definition set_title :: "string \<Rightarrow> doc \<Rightarrow> doc" where
  "set_title v d =
     (let v = trim v in if v = title d then d else markModified ''title'' (d\<lparr>title := v\<rparr>))"

definition set_description :: "string \<Rightarrow> doc \<Rightarrow> doc" where
  "set_description v d =
     (let v = trim v
      in if Some v = description d then d
         else markModified ''description'' (d\<lparr>description := Some v\<rparr>))"

definition set_dueDate :: "date \<Rightarrow> doc \<Rightarrow> doc" where
  "set_dueDate v d =
     (if valid_date v
      then (if v = dueDate d then d else markModified ''dueDate'' (d\<lparr>dueDate := v\<rparr>))
      else invalidate ''dueDate'' d)"

definition set_priority :: "priority \<Rightarrow> doc \<Rightarrow> doc" where
  "set_priority v d =
     (if v = priority d then d else markModified ''priority'' (d\<lparr>priority := v\<rparr>))"

definition set_status :: "status \<Rightarrow> doc \<Rightarrow> doc" where
  "set_status v d = (if v = status d then d else markModified ''status'' (d\<lparr>status := v\<rparr>))"

definition set_tags :: "string list \<Rightarrow> doc \<Rightarrow> doc" where
  "set_tags v d =
     (let v = map trim v in if v = tags d then d else markModified ''tags'' (d\<lparr>tags := v\<rparr>))"

definition set_assignedTo :: "oid \<Rightarrow> doc \<Rightarrow> doc" where
  "set_assignedTo v d =
     (if v = assignedTo d then d else markModified ''assignedTo'' (d\<lparr>assignedTo := v\<rparr>))"

definition set_isDeleted :: "bool \<Rightarrow> doc \<Rightarrow> doc" where
  "set_isDeleted v d =
     (if v = isDeleted d then d else markModified ''isDeleted'' (d\<lparr>isDeleted := v\<rparr>))"

record details =
  d_field :: "string option"
  d_oldValue :: "mixed option"
  d_newValue :: "mixed option"
  d_description :: "string option"

definition describe :: "string \<Rightarrow> details" where
  "describe s = \<lparr>d_field = None, d_oldValue = None, d_newValue = None, d_description = Some s\<rparr>"

definition addAuditEntry ::
  "date \<Rightarrow> oid \<Rightarrow> action \<Rightarrow> details \<Rightarrow> 'a task_scheme \<Rightarrow> 'a task_scheme" where
  "addAuditEntry now userId act det t =
     t\<lparr>auditHistory := auditHistory t @
        [\<lparr>a_user = userId, a_action = act, a_field = d_field det,
          a_oldValue = d_oldValue det, a_newValue = d_newValue det,
          a_description = d_description det, a_timestamp = now\<rparr>]\<rparr>"

datatype error = Error nat string | ValidationError "string list" | CastError string

text \<open>
  The validators of the schema: a title is required and has at most 200 characters, a
  description at most 5000, a tag at most 50. The other paths have a type that admits
  every value of the model. A save validates the paths that were invalidated, every path
  of a new document and the modified paths of a loaded one, and reports the failing paths.
\<close>

definition path_valid :: "string \<Rightarrow> doc \<Rightarrow> bool" where
  "path_valid p d =
     (if p = ''title'' then title d \<noteq> [] \<and> length (title d) \<le> 200
      else if p = ''description''
           then (case description d of None \<Rightarrow> True | Some x \<Rightarrow> length x \<le> 5000)
      else if p = ''tags'' then list_all (\<lambda>x. length x \<le> 50) (tags d)
      else True)"

definition schema_paths :: "string list" where
  "schema_paths =
     [''title'', ''description'', ''assignedTo'', ''createdBy'', ''status'', ''priority'',
      ''dueDate'', ''tags'', ''completedAt'', ''isDeleted'']"

definition validate :: "doc \<Rightarrow> string list" where
  "validate d =
     errors d @
     filter (\<lambda>p. \<not> path_valid p d) (if isNew d then schema_paths else modifiedPaths d)"

text \<open>The \<open>pre('save')\<close> hook: it refuses a reversion from Completed and stamps \<open>completedAt\<close>.\<close>

definition pre_save :: "date \<Rightarrow> doc \<Rightarrow> error + doc" where
  "pre_save now d =
     (if isModified ''status'' d then
        (let previousStatus = map_option status (original d) in
         if previousStatus = Some Completed \<and> status d \<noteq> Completed
         then Inl (Error 400 ''Cannot revert status from Completed'')
         else if status d = Completed \<and> completedAt d = None
              then Inr (d\<lparr>completedAt := Some now\<rparr>)
              else Inr d)
      else Inr d)"

section \<open>The task collection\<close>

definition persist :: "task \<Rightarrow> task list \<Rightarrow> task list" where
  "persist t ts =
     (if task_id t \<in> set (map task_id ts)
      then map (\<lambda>x. if task_id x = task_id t then t else x) ts
      else ts @ [t])"

text \<open>
  A save validates the document, runs the hook and writes the document; a document that
  fails either is not written.
\<close>

definition save :: "date \<Rightarrow> task list \<Rightarrow> doc \<Rightarrow> error + (task list \<times> doc)" where
  "save now ts d =
     (if validate d \<noteq> [] then Inl (ValidationError (validate d))
      else
        (case pre_save now d of
           Inl e \<Rightarrow> Inl e
         | Inr d' \<Rightarrow> Inr (persist (toObject d') ts, d'\<lparr>isNew := False, modifiedPaths := []\<rparr>)))"

definition findOne :: "task list \<Rightarrow> oid \<Rightarrow> oid \<Rightarrow> task option" where
  "findOne ts tid uid =
     find (\<lambda>t. task_id t = tid \<and> assignedTo t = uid \<and> \<not> isDeleted t) ts"

definition findById :: "task list \<Rightarrow> oid \<Rightarrow> task option" where
  "findById ts tid = find (\<lambda>t. task_id t = tid) ts"

section \<open>Responses and push events\<close>

datatype response =
  Failure nat string
  | FailureCount nat string nat
  | TaskResult nat "task option"
  | Message nat string
  | UserDeleted string nat
  | Next error

datatype event = TASK_CREATED "task option" | TASK_UPDATED "task option" | TASK_DELETED oid

text \<open>A notification is a call of \<open>broadcastToUser\<close>: the key it is given and the event.\<close>

type_synonym notification = "string \<times> event"

section \<open>updateTask (backend/controllers/taskController.js)\<close>

text \<open>
  The body of an update request. A field that is absent is \<open>None\<close>; so is a due date,
  priority, status or list of tags that the controller's test reads as false. The due date
  is the number the sent value denotes as a date, a number out of range when it denotes
  none. Priority and status range over the values of the enums: an update that sends
  another string for one of them is never stored, since either it is refused as a
  reversion or the save fails the validation of the enum.
\<close>

record patch =
  p_title :: "string option"
  p_description :: "string option"
  p_dueDate :: "date option"
  p_priority :: "priority option"
  p_tags :: "string list option"
  p_status :: "status option"

record change =
  c_field :: string
  c_oldValue :: "mixed option"
  c_newValue :: mixed

definition upd_title :: "patch \<Rightarrow> doc \<times> change list \<Rightarrow> doc \<times> change list" where
  "upd_title body = (\<lambda>(d, changes).
     case p_title body of
       None \<Rightarrow> (d, changes)
     | Some t \<Rightarrow>
         if t \<noteq> [] \<and> t \<noteq> title d
         then (set_title t d,
               changes @ [\<lparr>c_field = ''title'', c_oldValue = Some (MString (title d)),
                            c_newValue = MString t\<rparr>])
         else (d, changes))"

definition upd_description :: "patch \<Rightarrow> doc \<times> change list \<Rightarrow> doc \<times> change list" where
  "upd_description body = (\<lambda>(d, changes).
     case p_description body of
       None \<Rightarrow> (d, changes)
     | Some x \<Rightarrow>
         if Some x \<noteq> description d
         then (set_description x d,
               changes @ [\<lparr>c_field = ''description'',
                            c_oldValue = map_option MString (description d),
                            c_newValue = MString x\<rparr>])
         else (d, changes))"

text \<open>
  The time of a value that does not denote a date is not a number, which differs from
  every time: the branch is taken.
\<close>

definition upd_dueDate :: "patch \<Rightarrow> doc \<times> change list \<Rightarrow> doc \<times> change list" where
  "upd_dueDate body = (\<lambda>(d, changes).
     case p_dueDate body of
       None \<Rightarrow> (d, changes)
     | Some x \<Rightarrow>
         if \<not> valid_date x \<or> x \<noteq> dueDate d
         then (set_dueDate x d,
               changes @ [\<lparr>c_field = ''dueDate'', c_oldValue = Some (MDate (dueDate d)),
                            c_newValue = MDate x\<rparr>])
         else (d, changes))"

definition upd_priority ::
  "date \<Rightarrow> oid \<Rightarrow> patch \<Rightarrow> doc \<times> change list \<Rightarrow> doc \<times> change list" where
  "upd_priority now uid body = (\<lambda>(d, changes).
     case p_priority body of
       None \<Rightarrow> (d, changes)
     | Some x \<Rightarrow>
         if x \<noteq> priority d
         then (set_priority x
                 (addAuditEntry now uid Priority_changed
                    \<lparr>d_field = Some ''priority'', d_oldValue = Some (MPriority (priority d)),
                     d_newValue = Some (MPriority x), d_description = None\<rparr> d),
               changes @ [\<lparr>c_field = ''priority'',
                            c_oldValue = Some (MPriority (priority d)),
                            c_newValue = MPriority x\<rparr>])
         else (d, changes))"

definition InvalidTransitionError :: response where
  "InvalidTransitionError = Failure 400 ''Cannot revert status from Completed''"

definition upd_status ::
  "date \<Rightarrow> oid \<Rightarrow> patch \<Rightarrow> doc \<times> change list \<Rightarrow> response + doc \<times> change list" where
  "upd_status now uid body = (\<lambda>(d, changes).
     case p_status body of
       None \<Rightarrow> Inr (d, changes)
     | Some x \<Rightarrow>
         if x \<noteq> status d
         then (if status d = Completed \<and> x \<noteq> Completed
               then Inl InvalidTransitionError
               else Inr (set_status x
                           (addAuditEntry now uid Status_changed
                              \<lparr>d_field = Some ''status'',
                               d_oldValue = Some (MStatus (status d)),
                               d_newValue = Some (MStatus x), d_description = None\<rparr> d),
                         changes @ [\<lparr>c_field = ''status'',
                                      c_oldValue = Some (MStatus (status d)),
                                      c_newValue = MStatus x\<rparr>]))
         else Inr (d, changes))"

definition upd_tags :: "patch \<Rightarrow> doc \<times> change list \<Rightarrow> doc \<times> change list" where
  "upd_tags body = (\<lambda>(d, changes).
     case p_tags body of
       None \<Rightarrow> (d, changes)
     | Some x \<Rightarrow> (set_tags x d, changes))"

fun join :: "string \<Rightarrow> string list \<Rightarrow> string" where
  "join sep [] = []"
| "join sep [x] = x"
| "join sep (x # y # ys) = x @ sep @ join sep (y # ys)"

definition upd_summary :: "date \<Rightarrow> oid \<Rightarrow> doc \<times> change list \<Rightarrow> doc" where
  "upd_summary now uid = (\<lambda>(d, changes).
     if length changes > 0
     then (let changedFields = join '', '' (map c_field changes)
           in addAuditEntry now uid Updated (describe (''Updated: '' @ changedFields)) d)
     else d)"

text \<open>Lines 155 to 213 of the controller: the patch applied to the loaded document.\<close>

definition applyPatch :: "date \<Rightarrow> oid \<Rightarrow> patch \<Rightarrow> doc \<Rightarrow> response + doc" where
  "applyPatch now uid body d =
     (case upd_status now uid body
             (upd_priority now uid body
               (upd_dueDate body (upd_description body (upd_title body (d, []))))) of
        Inl r \<Rightarrow> Inl r
      | Inr s \<Rightarrow> Inr (upd_summary now uid (upd_tags body s)))"

definition updateTask ::
  "date \<Rightarrow> task list \<Rightarrow> oid \<Rightarrow> oid \<Rightarrow> patch \<Rightarrow> response \<times> task list \<times> notification list" where
  "updateTask now ts uid tid body =
     (case findOne ts tid uid of
        None \<Rightarrow> (Failure 404 ''Task not found or access denied'', ts, [])
      | Some t \<Rightarrow>
          (case applyPatch now uid body (init t) of
             Inl r \<Rightarrow> (r, ts, [])
           | Inr d \<Rightarrow>
               (case save now ts d of
                  Inl e \<Rightarrow> (Next e, ts, [])
                | Inr (ts', d') \<Rightarrow>
                    (let populatedTask = findById ts' (task_id d')
                     in (TaskResult 200 populatedTask, ts',
                         [(toString (assignedTo d'), TASK_UPDATED populatedTask)])))))"

section \<open>The other task mutations (backend/controllers/taskController.js)\<close>

record user =
  u_id :: oid
  name :: string
  email :: string

definition findUser :: "user list \<Rightarrow> oid \<Rightarrow> user option" where
  "findUser us uid = find (\<lambda>u. u_id u = uid) us"

text \<open>Id generation is modelled by an allocator that returns a number above every id in use.\<close>

definition fresh_id :: "oid list \<Rightarrow> oid" where
  "fresh_id ids = Suc (fold max ids 0)"

record create_body =
  b_title :: "string option"
  b_description :: "string option"
  b_assignedTo :: oid
  b_dueDate :: "date option"
  b_priority :: "priority option"
  b_tags :: "string list option"

text \<open>
  The document that \<open>Task.create\<close> builds from the body: the values pass through the
  setters, a missing title is an empty one, and a due date that is missing or cannot be
  cast invalidates its path.
\<close>

definition new_task :: "oid \<Rightarrow> oid \<Rightarrow> create_body \<Rightarrow> doc" where
  "new_task tid uid body =
     \<lparr>task_id = tid,
      title = (case b_title body of None \<Rightarrow> [] | Some x \<Rightarrow> trim x),
      description = map_option trim (b_description body),
      assignedTo = b_assignedTo body, createdBy = uid, status = ToDo,
      priority = (case b_priority body of None \<Rightarrow> Medium | Some p \<Rightarrow> p),
      dueDate = (case b_dueDate body of None \<Rightarrow> 0 | Some x \<Rightarrow> if valid_date x then x else 0),
      tags = (case b_tags body of None \<Rightarrow> [] | Some x \<Rightarrow> map trim x),
      attachments = [], comments = [], auditHistory = [], completedAt = None,
      isDeleted = False, original = None, isNew = True,
      modifiedPaths = [''title'', ''description'', ''assignedTo'', ''createdBy'', ''dueDate'',
                       ''priority'', ''tags'', ''status''],
      errors = (case b_dueDate body of
                  None \<Rightarrow> [''dueDate'']
                | Some x \<Rightarrow> if valid_date x then [] else [''dueDate''])\<rparr>"

definition createTask ::
  "date \<Rightarrow> user list \<Rightarrow> task list \<Rightarrow> oid \<Rightarrow> create_body
     \<Rightarrow> response \<times> task list \<times> notification list" where
  "createTask now us ts uid body =
     (case findUser us (b_assignedTo body) of
        None \<Rightarrow> (Failure 404 ''Assigned user not found'', ts, [])
      | Some assignedUser \<Rightarrow>
          (case save now ts (new_task (fresh_id (map task_id ts)) uid body) of
             Inl e \<Rightarrow> (Next e, ts, [])
           | Inr (ts1, task) \<Rightarrow>
               (case save now ts1
                       (addAuditEntry now uid Created
                          (describe (''Task created and assigned to '' @ name assignedUser))
                          task) of
                  Inl e \<Rightarrow> (Next e, ts1, [])
                | Inr (ts2, task') \<Rightarrow>
                    (let populatedTask = findById ts2 (task_id task')
                     in (TaskResult 201 populatedTask, ts2,
                         [(toString (b_assignedTo body), TASK_CREATED populatedTask)])))))"

definition deleteTask ::
  "date \<Rightarrow> task list \<Rightarrow> oid \<Rightarrow> oid \<Rightarrow> response \<times> task list \<times> notification list" where
  "deleteTask now ts uid tid =
     (case findOne ts tid uid of
        None \<Rightarrow> (Failure 404 ''Task not found or access denied'', ts, [])
      | Some t \<Rightarrow>
          (case save now ts (set_isDeleted True (init t)) of
             Inl e \<Rightarrow> (Next e, ts, [])
           | Inr (ts', d') \<Rightarrow>
               (Message 200 ''Task deleted successfully'', ts',
                [(toString (assignedTo d'), TASK_DELETED (task_id d'))])))"

text \<open>A comment needs a text of at most 2000 characters.\<close>

definition push_comment :: "comment \<Rightarrow> doc \<Rightarrow> doc" where
  "push_comment c d =
     (let d = d\<lparr>comments := comments d @ [c]\<rparr>
      in if c_text c = [] \<or> 2000 < length (c_text c) then invalidate ''comments'' d else d)"

definition addComment ::
  "date \<Rightarrow> task list \<Rightarrow> oid \<Rightarrow> oid \<Rightarrow> string
     \<Rightarrow> response \<times> task list \<times> notification list" where
  "addComment now ts uid tid text =
     (case findOne ts tid uid of
        None \<Rightarrow> (Failure 404 ''Task not found or access denied'', ts, [])
      | Some t \<Rightarrow>
          (let d = push_comment \<lparr>c_user = uid, c_text = text, c_createdAt = now\<rparr> (init t);
               d = addAuditEntry now uid Comment_added (describe ''Added a comment'') d
           in case save now ts d of
                Inl e \<Rightarrow> (Next e, ts, [])
              | Inr (ts', d') \<Rightarrow>
                  (let populatedTask = findById ts' (task_id d')
                   in (TaskResult 200 populatedTask, ts',
                       [(toString (assignedTo d'), TASK_UPDATED populatedTask)]))))"

record upload_file =
  f_filename :: string
  f_originalname :: string
  f_mimetype :: string
  f_size :: nat

text \<open>An attachment needs a file name and an original name.\<close>

definition push_attachment :: "attachment \<Rightarrow> doc \<Rightarrow> doc" where
  "push_attachment a d =
     (let d = d\<lparr>attachments := attachments d @ [a]\<rparr>
      in if filename a = [] \<or> originalName a = [] then invalidate ''attachments'' d else d)"

definition addAttachment ::
  "date \<Rightarrow> task list \<Rightarrow> oid \<Rightarrow> oid \<Rightarrow> upload_file option
     \<Rightarrow> response \<times> task list \<times> notification list" where
  "addAttachment now ts uid tid upload =
     (case findOne ts tid uid of
        None \<Rightarrow> (Failure 404 ''Task not found or access denied'', ts, [])
      | Some t \<Rightarrow>
          (case upload of
             None \<Rightarrow> (Failure 400 ''Please upload a file'', ts, [])
           | Some f \<Rightarrow>
               (let d = push_attachment
                          \<lparr>att_id = fresh_id (map att_id (attachments (init t))),
                           filename = f_filename f, originalName = f_originalname f,
                           mimetype = f_mimetype f, att_size = f_size f,
                           uploadedBy = uid, uploadedAt = now\<rparr>
                          (init t);
                    d = addAuditEntry now uid Attachment_added
                          (describe (''Added attachment: '' @ f_originalname f)) d
                in case save now ts d of
                     Inl e \<Rightarrow> (Next e, ts, [])
                   | Inr (ts', d') \<Rightarrow>
                       (let populatedTask = findById ts' (task_id d')
                        in (TaskResult 200 populatedTask, ts',
                            [(toString (assignedTo d'), TASK_UPDATED populatedTask)])))))"

text \<open>
  The file on disk is unlinked on a best-effort basis before the entry is recorded; the
  file system is not part of the state.
\<close>

definition removeAttachment ::
  "date \<Rightarrow> task list \<Rightarrow> oid \<Rightarrow> oid \<Rightarrow> oid
     \<Rightarrow> response \<times> task list \<times> notification list" where
  "removeAttachment now ts uid tid attachmentId =
     (case findOne ts tid uid of
        None \<Rightarrow> (Failure 404 ''Task not found or access denied'', ts, [])
      | Some t \<Rightarrow>
          (case find (\<lambda>a. att_id a = attachmentId) (attachments t) of
             None \<Rightarrow> (Failure 404 ''Attachment not found'', ts, [])
           | Some attachment \<Rightarrow>
               (let d = addAuditEntry now uid Attachment_removed
                          (describe (''Removed attachment: '' @ originalName attachment))
                          (init t);
                    d = d\<lparr>attachments := filter (\<lambda>a. att_id a \<noteq> attachmentId) (attachments d)\<rparr>
                in case save now ts d of
                     Inl e \<Rightarrow> (Next e, ts, [])
                   | Inr (ts', d') \<Rightarrow>
                       (let populatedTask = findById ts' (task_id d')
                        in (TaskResult 200 populatedTask, ts',
                            [(toString (assignedTo d'), TASK_UPDATED populatedTask)])))))"

section \<open>deleteUser (backend/controllers/userController.js)\<close>

definition assignedTasks :: "task list \<Rightarrow> oid \<Rightarrow> task list" where
  "assignedTasks ts uid = filter (\<lambda>t. assignedTo t = uid \<and> \<not> isDeleted t) ts"

definition countDocuments :: "task list \<Rightarrow> oid \<Rightarrow> nat" where
  "countDocuments ts uid = length (assignedTasks ts uid)"

definition reassignTask :: "date \<Rightarrow> oid \<Rightarrow> oid \<Rightarrow> string \<Rightarrow> task \<Rightarrow> doc" where
  "reassignTask now actor reassignTo text t =
     addAuditEntry now actor Reassigned (describe text) (set_assignedTo reassignTo (init t))"

text \<open>
  The loop over the found tasks: each task is saved and announced on its own, under the
  key \<open>key\<close> (the \<open>reassignTo\<close> of the request as it was sent), and an error of a save
  leaves the earlier tasks reassigned.
\<close>

fun reassignAll ::
  "date \<Rightarrow> oid \<Rightarrow> oid \<Rightarrow> string \<Rightarrow> string \<Rightarrow> task list \<Rightarrow> task list \<Rightarrow> notification list
     \<Rightarrow> error \<times> task list \<times> notification list + task list \<times> notification list" where
  "reassignAll now actor reassignTo key text [] ts ns = Inr (ts, ns)"
| "reassignAll now actor reassignTo key text (t # rest) ts ns =
     (case save now ts (reassignTask now actor reassignTo text t) of
        Inl e \<Rightarrow> Inl (e, ts, ns)
      | Inr (ts', d') \<Rightarrow>
          reassignAll now actor reassignTo key text rest ts'
            (ns @ [(key, TASK_CREATED (findById ts' (task_id d')))]))"

record db =
  users :: "user list"
  tasks :: "task list"

definition findByIdAndDelete :: "user list \<Rightarrow> oid \<Rightarrow> user list" where
  "findByIdAndDelete us uid = filter (\<lambda>u. u_id u \<noteq> uid) us"

text \<open>
  \<open>requester\<close> is the id of the authenticated user, whose string form is \<open>req.user.id\<close>;
  \<open>params_id\<close> is the id in the address of the request and \<open>reassignTo\<close> the field of the
  body, both as they were sent. The guard against self-deletion compares the strings; the
  queries cast them to object ids, and a string that cannot be cast makes the query fail.
\<close>

definition deleteUser ::
  "date \<Rightarrow> db \<Rightarrow> oid \<Rightarrow> string \<Rightarrow> string option \<Rightarrow> response \<times> db \<times> notification list" where
  "deleteUser now s requester params_id reassignTo =
     (if params_id = toString requester
      then (Failure 400 ''You cannot delete your own account'', s, [])
      else
        (case castObjectId params_id of
           None \<Rightarrow> (Next (CastError ''_id''), s, [])
         | Some target \<Rightarrow>
        (case findUser (users s) target of
           None \<Rightarrow> (Failure 404 ''User not found'', s, [])
         | Some user \<Rightarrow>
             (let taskCount = countDocuments (tasks s) target;
                  deleted = (\<lambda>ts ns.
                     (UserDeleted ''User deleted successfully'' taskCount,
                      \<lparr>users = findByIdAndDelete (users s) target, tasks = ts\<rparr>, ns))
              in if taskCount > 0
                 then
                   (case reassignTo of
                      None \<Rightarrow>
                        (FailureCount 400
                           ''User has assigned tasks. Please provide reassignTo user ID.''
                           taskCount, s, [])
                    | Some key \<Rightarrow>
                        if key = []
                        then (FailureCount 400
                                ''User has assigned tasks. Please provide reassignTo user ID.''
                                taskCount, s, [])
                        else
                        (case castObjectId key of
                           None \<Rightarrow> (Next (CastError ''_id''), s, [])
                         | Some r \<Rightarrow>
                        (case findUser (users s) r of
                           None \<Rightarrow> (Failure 404 ''Reassign target user not found'', s, [])
                         | Some reassignUser \<Rightarrow>
                             (case reassignAll now requester r key
                                     (''Reassigned from '' @ name user @ '' to ''
                                        @ name reassignUser @ '' (user deletion)'')
                                     (assignedTasks (tasks s) target) (tasks s) [] of
                                Inl (e, ts', ns) \<Rightarrow> (Next e, s\<lparr>tasks := ts'\<rparr>, ns)
                              | Inr (ts', ns) \<Rightarrow> deleted ts' ns))))
                 else deleted (tasks s) []))))"

section \<open>The routes (backend/routes/tasks.js, backend/routes/users.js)\<close>

datatype request =
  CreateTask create_body
  | UpdateTask oid patch
  | DeleteTask oid
  | AddComment oid string
  | AddAttachment oid "upload_file option"
  | RemoveAttachment oid oid
  | DeleteUser string "string option"

definition on_tasks ::
  "db \<Rightarrow> response \<times> task list \<times> notification list \<Rightarrow> response \<times> db \<times> notification list" where
  "on_tasks s = (\<lambda>(r, ts, ns). (r, s\<lparr>tasks := ts\<rparr>, ns))"

fun route :: "date \<Rightarrow> db \<Rightarrow> oid \<Rightarrow> request \<Rightarrow> response \<times> db \<times> notification list" where
  "route now s uid (CreateTask body) = on_tasks s (createTask now (users s) (tasks s) uid body)"
| "route now s uid (UpdateTask tid body) = on_tasks s (updateTask now (tasks s) uid tid body)"
| "route now s uid (DeleteTask tid) = on_tasks s (deleteTask now (tasks s) uid tid)"
| "route now s uid (AddComment tid text) = on_tasks s (addComment now (tasks s) uid tid text)"
| "route now s uid (AddAttachment tid f) = on_tasks s (addAttachment now (tasks s) uid tid f)"
| "route now s uid (RemoveAttachment tid aid) =
     on_tasks s (removeAttachment now (tasks s) uid tid aid)"
| "route now s uid (DeleteUser params_id reassignTo) =
     deleteUser now s uid params_id reassignTo"

section \<open>The connection registry (WebSocketServer)\<close>

text \<open>
  Connections are handles into a table of socket objects; \<open>next_ws\<close> is the handle of
  the next socket the transport library will hand over. A socket carries the fields the
  server sets on it (\<open>userId\<close>, \<open>isAlive\<close>, both undefined until the handshake succeeds),
  its ready state and whether the server has installed its listeners. \<open>wss_clients\<close> is the
  transport library's own set of sockets, \<open>clients\<close> the registry from user id to the set of
  that user's connections (a set is a list in insertion order), \<open>awaiting\<close> the sockets
  whose handshake waits for the lookup of the user, with the id their token carries,
  \<open>pending\<close> the close events the runtime has queued, and \<open>effects\<close> the calls made so
  far, in order.
\<close>

datatype readyState = CONNECTING | OPEN | CLOSING | CLOSED

datatype message = CONNECTED oid | PONG | Push event

datatype effect =
  Serialized message
  | Sent nat string
  | Pinged nat
  | Terminated nat
  | Closed nat nat string

record socket =
  userId :: "oid option"
  isAlive :: "bool option"
  readyState :: readyState
  listening :: bool

record server =
  next_ws :: nat
  sockets :: "nat \<Rightarrow> socket"
  wss_clients :: "nat list"
  clients :: "oid \<rightharpoonup> nat list"
  awaiting :: "nat \<rightharpoonup> oid"
  pending :: "nat list"
  effects :: "effect list"

definition set_add :: "nat \<Rightarrow> nat list \<Rightarrow> nat list" where
  "set_add ws conns = (if ws \<in> set conns then conns else conns @ [ws])"

definition ws_send :: "server \<Rightarrow> nat \<Rightarrow> string \<Rightarrow> server" where
  "ws_send s ws str = s\<lparr>effects := effects s @ [Sent ws str]\<rparr>"

definition JSON_stringify :: "(message \<Rightarrow> string) \<Rightarrow> server \<Rightarrow> message \<Rightarrow> string \<times> server" where
  "JSON_stringify stringify s m = (stringify m, s\<lparr>effects := effects s @ [Serialized m]\<rparr>)"

text \<open>Closing or terminating a socket that is closed already does nothing to it.\<close>

definition ws_close :: "server \<Rightarrow> nat \<Rightarrow> nat \<Rightarrow> string \<Rightarrow> server" where
  "ws_close s ws code reason =
     (if readyState (sockets s ws) = CLOSED
      then s\<lparr>effects := effects s @ [Closed ws code reason]\<rparr>
      else s\<lparr>sockets := (sockets s)(ws := (sockets s ws)\<lparr>readyState := CLOSING\<rparr>),
             pending := pending s @ [ws],
             effects := effects s @ [Closed ws code reason]\<rparr>)"

definition ws_terminate :: "server \<Rightarrow> nat \<Rightarrow> server" where
  "ws_terminate s ws =
     (if readyState (sockets s ws) = CLOSED
      then s\<lparr>effects := effects s @ [Terminated ws]\<rparr>
      else s\<lparr>sockets := (sockets s)(ws := (sockets s ws)\<lparr>readyState := CLOSING\<rparr>),
             pending := pending s @ [ws],
             effects := effects s @ [Terminated ws]\<rparr>)"

definition ws_ping :: "server \<Rightarrow> nat \<Rightarrow> server" where
  "ws_ping s ws = s\<lparr>effects := effects s @ [Pinged ws]\<rparr>"

definition register :: "(message \<Rightarrow> string) \<Rightarrow> server \<Rightarrow> nat \<Rightarrow> oid \<Rightarrow> server" where
  "register stringify s ws uid =
     (let s = s\<lparr>sockets := (sockets s)(ws := (sockets s ws)\<lparr>userId := Some uid,
                                                              isAlive := Some True\<rparr>)\<rparr>;
          s = (if clients s uid = None then s\<lparr>clients := (clients s)(uid \<mapsto> [])\<rparr> else s);
          s = (case clients s uid of
                 None \<Rightarrow> s
               | Some conns \<Rightarrow> s\<lparr>clients := (clients s)(uid \<mapsto> set_add ws conns)\<rparr>);
          (str, s) = JSON_stringify stringify s (CONNECTED uid);
          s = ws_send s ws str
      in s\<lparr>sockets := (sockets s)(ws := (sockets s ws)\<lparr>listening := True\<rparr>)\<rparr>)"

text \<open>
  \<open>verify\<close> stands for the check of the signed token: it yields the user id the token
  carries, or nothing when the token is rejected. \<open>handleConnection\<close> is asynchronous:
  it runs up to the lookup of the user and is resumed when the lookup has completed, and
  other events are handled in between. The listeners of the socket are installed at the
  end of the resumed part.
\<close>

definition handleConnection ::
  "(string \<Rightarrow> oid option) \<Rightarrow> server \<Rightarrow> nat \<Rightarrow> string option \<Rightarrow> server" where
  "handleConnection verify s ws token =
     (case token of
        None \<Rightarrow> ws_close s ws 1008 ''Token required''
      | Some tk \<Rightarrow>
          if tk = [] then ws_close s ws 1008 ''Token required''
          else
            (case verify tk of
               None \<Rightarrow> ws_close s ws 1008 ''Invalid token''
             | Some decoded \<Rightarrow> s\<lparr>awaiting := (awaiting s)(ws \<mapsto> decoded)\<rparr>))"

definition handleConnection_resumed ::
  "(message \<Rightarrow> string) \<Rightarrow> user list \<Rightarrow> server \<Rightarrow> nat \<Rightarrow> server" where
  "handleConnection_resumed stringify us s ws =
     (case awaiting s ws of
        None \<Rightarrow> s
      | Some decoded \<Rightarrow>
          (let s = s\<lparr>awaiting := (awaiting s)(ws := None)\<rparr>
           in case findUser us decoded of
                None \<Rightarrow> ws_close s ws 1008 ''User not found''
              | Some u \<Rightarrow> register stringify s ws (u_id u)))"

text \<open>The library's connection event: a new socket, open, joins the library's set.\<close>

definition connection :: "(string \<Rightarrow> oid option) \<Rightarrow> server \<Rightarrow> string option \<Rightarrow> server" where
  "connection verify s token =
     (let ws = next_ws s
      in handleConnection verify
           (s\<lparr>next_ws := Suc ws,
              sockets := (sockets s)(ws := \<lparr>userId = None, isAlive = None, readyState = OPEN,
                                             listening = False\<rparr>),
              wss_clients := set_add ws (wss_clients s)\<rparr>)
           ws token)"

definition handleMessage :: "(message \<Rightarrow> string) \<Rightarrow> server \<Rightarrow> nat \<Rightarrow> string \<Rightarrow> server" where
  "handleMessage stringify s ws data_type =
     (if data_type = ''PING''
      then (let (str, s) = JSON_stringify stringify s PONG in ws_send s ws str)
      else s)"

definition handleDisconnection :: "server \<Rightarrow> nat \<Rightarrow> server" where
  "handleDisconnection s ws =
     (case userId (sockets s ws) of
        None \<Rightarrow> s
      | Some uid \<Rightarrow>
          (case clients s uid of
             None \<Rightarrow> s
           | Some conns \<Rightarrow>
               (let conns = removeAll ws conns
                in if length conns = 0
                   then s\<lparr>clients := (clients s)(uid := None)\<rparr>
                   else s\<lparr>clients := (clients s)(uid \<mapsto> conns)\<rparr>)))"

definition broadcastToUser :: "(message \<Rightarrow> string) \<Rightarrow> server \<Rightarrow> oid \<Rightarrow> message \<Rightarrow> server" where
  "broadcastToUser stringify s uid m =
     (case clients s uid of
        None \<Rightarrow> s
      | Some userConnections \<Rightarrow>
          (let (messageStr, s) = JSON_stringify stringify s m
           in fold (\<lambda>ws s. if readyState (sockets s ws) = OPEN then ws_send s ws messageStr else s)
                userConnections s))"

text \<open>The close event of a socket: the library drops it from its set, then the listener runs.\<close>

definition emit_close :: "server \<Rightarrow> nat \<Rightarrow> server" where
  "emit_close s ws =
     (let s = s\<lparr>sockets := (sockets s)(ws := (sockets s ws)\<lparr>readyState := CLOSED\<rparr>),
                wss_clients := removeAll ws (wss_clients s)\<rparr>
      in if listening (sockets s ws) then handleDisconnection s ws else s)"

definition drain :: "server \<Rightarrow> server" where
  "drain s = fold (\<lambda>ws s. emit_close s ws) (pending s) (s\<lparr>pending := []\<rparr>)"

definition sweep_socket :: "server \<Rightarrow> nat \<Rightarrow> server" where
  "sweep_socket s ws =
     (if isAlive (sockets s ws) = Some False
      then ws_terminate s ws
      else ws_ping (s\<lparr>sockets := (sockets s)(ws := (sockets s ws)\<lparr>isAlive := Some False\<rparr>)\<rparr>) ws)"

definition sweep :: "server \<Rightarrow> server" where
  "sweep s = fold (\<lambda>ws s. sweep_socket s ws) (wss_clients s) s"

text \<open>One firing of the interval: the sweep, then the close events of the sockets it terminated.\<close>

definition heartbeat :: "server \<Rightarrow> server" where
  "heartbeat s = drain (sweep s)"

definition on_pong :: "server \<Rightarrow> nat \<Rightarrow> server" where
  "on_pong s ws =
     (if listening (sockets s ws)
      then s\<lparr>sockets := (sockets s)(ws := (sockets s ws)\<lparr>isAlive := Some True\<rparr>)\<rparr>
      else s)"

definition on_error :: "server \<Rightarrow> nat \<Rightarrow> server" where
  "on_error s ws = (if listening (sockets s ws) then handleDisconnection s ws else s)"

definition new_server :: server where
  "new_server =
     \<lparr>next_ws = 0,
      sockets = (\<lambda>ws. \<lparr>userId = None, isAlive = None, readyState = CLOSED, listening = False\<rparr>),
      wss_clients = [], clients = Map.empty, awaiting = Map.empty, pending = [],
      effects = []\<rparr>"

datatype server_event =
  Connection "string option"
  | LookupDone nat
  | PongFrame nat
  | ClientMessage nat string
  | CloseEvent nat
  | ErrorEvent nat
  | Heartbeat
  | BroadcastToUser oid message

fun server_step ::
  "(message \<Rightarrow> string) \<Rightarrow> (string \<Rightarrow> oid option) \<Rightarrow> user list \<Rightarrow> server_event \<Rightarrow> server
     \<Rightarrow> server" where
  "server_step stringify verify us (Connection token) s = connection verify s token"
| "server_step stringify verify us (LookupDone ws) s =
     handleConnection_resumed stringify us s ws"
| "server_step stringify verify us (PongFrame ws) s = on_pong s ws"
| "server_step stringify verify us (ClientMessage ws data_type) s =
     (if listening (sockets s ws) then handleMessage stringify s ws data_type else s)"
| "server_step stringify verify us (CloseEvent ws) s = emit_close s ws"
| "server_step stringify verify us (ErrorEvent ws) s = on_error s ws"
| "server_step stringify verify us Heartbeat s = heartbeat s"
| "server_step stringify verify us (BroadcastToUser uid m) s = broadcastToUser stringify s uid m"

definition server_run ::
  "(message \<Rightarrow> string) \<Rightarrow> (string \<Rightarrow> oid option) \<Rightarrow> user list \<Rightarrow> server_event list \<Rightarrow> server
     \<Rightarrow> server" where
  "server_run stringify verify us evs s = fold (server_step stringify verify us) evs s"

definition tracked :: "server \<Rightarrow> nat \<Rightarrow> bool" where
  "tracked s ws = (\<exists>uid conns. clients s uid = Some conns \<and> ws \<in> set conns)"

definition serialized_count :: "server \<Rightarrow> message \<Rightarrow> nat" where
  "serialized_count s m = length (filter (\<lambda>e. e = Serialized m) (effects s))"

definition is_open :: "server \<Rightarrow> nat \<Rightarrow> bool" where
  "is_open s ws = (readyState (sockets s ws) = OPEN)"

section \<open>The client hook (frontend/src/hooks/useWebSocket.js)\<close>

text \<open>
  The state of the hook: the refs (\<open>mountedRef\<close>, \<open>wsRef\<close> as the ready state of the
  socket it holds, \<open>reconnectTimeoutRef\<close> as the index of a timer, \<open>reconnectAttemptsRef\<close>),
  the \<open>isConnected\<close> state, the \<open>token\<close> captured by the closure of the effect that made
  the socket, and what the hook has asked of the runtime: every timer it set, with its
  delay and the token its callback captured, the timers that are cleared or have fired, and
  how often a timer's callback went on to attempt a reconnection.
\<close>

record hook =
  token :: "string option"
  mounted :: bool
  wsRef :: "readyState option"
  reconnectTimeout :: "nat option"
  reconnectAttempts :: nat
  isConnected :: bool
  timers :: "(nat \<times> string option) list"
  dead :: "nat list"
  attempted :: nat

definition truthy :: "string option \<Rightarrow> bool" where
  "truthy t = (case t of None \<Rightarrow> False | Some x \<Rightarrow> x \<noteq> [])"

definition effect_body :: "string option \<Rightarrow> hook \<Rightarrow> hook" where
  "effect_body tok h =
     (let h = h\<lparr>mounted := True\<rparr>
      in if \<not> truthy tok then h
         else if wsRef h = Some OPEN \<or> wsRef h = Some CONNECTING then h
         else h\<lparr>wsRef := Some CONNECTING, token := tok\<rparr>)"

definition onopen :: "hook \<Rightarrow> hook" where
  "onopen h =
     (if \<not> mounted h then h
      else h\<lparr>isConnected := True, reconnectAttempts := 0\<rparr>)"

definition onclose :: "nat \<Rightarrow> hook \<Rightarrow> hook" where
  "onclose code h =
     (if \<not> mounted h then h
      else
        (let h = h\<lparr>isConnected := False, wsRef := None\<rparr>
         in if mounted h \<and> code \<noteq> 1000 \<and> reconnectAttempts h < 3 \<and> truthy (token h)
            then (let h = h\<lparr>reconnectAttempts := reconnectAttempts h + 1\<rparr>;
                      delay = 3000 * reconnectAttempts h
                  in h\<lparr>reconnectTimeout := Some (length (timers h)),
                       timers := timers h @ [(delay, token h)]\<rparr>)
            else h))"

definition timer_callback :: "string option \<Rightarrow> hook \<Rightarrow> hook" where
  "timer_callback tok h =
     (if mounted h \<and> truthy tok
      then h\<lparr>isConnected := False, attempted := attempted h + 1\<rparr>
      else h)"

definition cleanup :: "hook \<Rightarrow> hook" where
  "cleanup h =
     (let h = h\<lparr>mounted := False\<rparr>;
          h = (case reconnectTimeout h of
                 None \<Rightarrow> h
               | Some i \<Rightarrow> h\<lparr>dead := dead h @ [i], reconnectTimeout := None\<rparr>)
      in case wsRef h of
           None \<Rightarrow> h
         | Some ws \<Rightarrow> h\<lparr>wsRef := None\<rparr>)"

text \<open>
  What can happen to the hook: the effect runs (mount, or a new token), the socket it holds
  opens or closes with a code, a timer that is set and neither cleared nor fired goes off,
  and the effect's cleanup runs. A socket event reaches a handler only while the hook holds
  the socket.
\<close>

datatype hook_event = Run "string option" | Open | Close nat | Timer nat | Cleanup

fun hook_step :: "hook_event \<Rightarrow> hook \<Rightarrow> hook" where
  "hook_step (Run tok) h = effect_body tok h"
| "hook_step Open h =
     (if wsRef h = Some CONNECTING then onopen (h\<lparr>wsRef := Some OPEN\<rparr>) else h)"
| "hook_step (Close code) h =
     (case wsRef h of
        None \<Rightarrow> h
      | Some ws \<Rightarrow> if ws = CLOSED then h else onclose code (h\<lparr>wsRef := Some CLOSED\<rparr>))"
| "hook_step (Timer i) h =
     (if i < length (timers h) \<and> i \<notin> set (dead h)
      then timer_callback (snd (timers h ! i)) (h\<lparr>dead := dead h @ [i]\<rparr>)
      else h)"
| "hook_step Cleanup h = cleanup h"

definition hook_run :: "hook_event list \<Rightarrow> hook \<Rightarrow> hook" where
  "hook_run evs h = fold hook_step evs h"

definition delays :: "hook \<Rightarrow> nat list" where
  "delays h = map fst (timers h)"

definition new_hook :: hook where
  "new_hook =
     \<lparr>token = None, mounted = True, wsRef = None, reconnectTimeout = None,
      reconnectAttempts = 0, isConnected = False, timers = [], dead = [], attempted = 0\<rparr>"

section \<open>What an update changes\<close>

text \<open>
  The conditions under which the controller takes each of its branches, read off a task
  and a patch, the names of the changed fields in the order of the checks, the audit
  entries an accepted update appends, and the task it stores.
\<close>

definition title_changes :: "'a task_scheme \<Rightarrow> patch \<Rightarrow> bool" where
  "title_changes t body =
     (case p_title body of None \<Rightarrow> False | Some x \<Rightarrow> x \<noteq> [] \<and> x \<noteq> title t)"

definition description_changes :: "'a task_scheme \<Rightarrow> patch \<Rightarrow> bool" where
  "description_changes t body =
     (case p_description body of None \<Rightarrow> False | Some x \<Rightarrow> Some x \<noteq> description t)"

definition dueDate_changes :: "'a task_scheme \<Rightarrow> patch \<Rightarrow> bool" where
  "dueDate_changes t body =
     (case p_dueDate body of None \<Rightarrow> False | Some x \<Rightarrow> \<not> valid_date x \<or> x \<noteq> dueDate t)"

definition priority_changes :: "'a task_scheme \<Rightarrow> patch \<Rightarrow> bool" where
  "priority_changes t body =
     (case p_priority body of None \<Rightarrow> False | Some x \<Rightarrow> x \<noteq> priority t)"

definition status_changes :: "'a task_scheme \<Rightarrow> patch \<Rightarrow> bool" where
  "status_changes t body =
     (case p_status body of None \<Rightarrow> False | Some x \<Rightarrow> x \<noteq> status t)"

definition reverts :: "'a task_scheme \<Rightarrow> patch \<Rightarrow> bool" where
  "reverts t body =
     (case p_status body of None \<Rightarrow> False | Some x \<Rightarrow> status t = Completed \<and> x \<noteq> Completed)"

definition changed_fields :: "'a task_scheme \<Rightarrow> patch \<Rightarrow> string list" where
  "changed_fields t body =
     (if title_changes t body then [''title''] else []) @
     (if description_changes t body then [''description''] else []) @
     (if dueDate_changes t body then [''dueDate''] else []) @
     (if priority_changes t body then [''priority''] else []) @
     (if status_changes t body then [''status''] else [])"

definition priority_entry :: "date \<Rightarrow> oid \<Rightarrow> priority \<Rightarrow> priority \<Rightarrow> audit" where
  "priority_entry now uid old new =
     \<lparr>a_user = uid, a_action = Priority_changed, a_field = Some ''priority'',
      a_oldValue = Some (MPriority old), a_newValue = Some (MPriority new),
      a_description = None, a_timestamp = now\<rparr>"

definition status_entry :: "date \<Rightarrow> oid \<Rightarrow> status \<Rightarrow> status \<Rightarrow> audit" where
  "status_entry now uid old new =
     \<lparr>a_user = uid, a_action = Status_changed, a_field = Some ''status'',
      a_oldValue = Some (MStatus old), a_newValue = Some (MStatus new),
      a_description = None, a_timestamp = now\<rparr>"

definition described_entry :: "date \<Rightarrow> oid \<Rightarrow> action \<Rightarrow> string \<Rightarrow> audit" where
  "described_entry now uid act text =
     \<lparr>a_user = uid, a_action = act, a_field = None, a_oldValue = None, a_newValue = None,
      a_description = Some text, a_timestamp = now\<rparr>"

definition appended :: "date \<Rightarrow> oid \<Rightarrow> 'a task_scheme \<Rightarrow> patch \<Rightarrow> audit list" where
  "appended now uid t body =
     (case p_priority body of
        None \<Rightarrow> []
      | Some x \<Rightarrow> if x \<noteq> priority t then [priority_entry now uid (priority t) x] else []) @
     (case p_status body of
        None \<Rightarrow> []
      | Some x \<Rightarrow> if x \<noteq> status t then [status_entry now uid (status t) x] else []) @
     (if changed_fields t body \<noteq> []
      then [described_entry now uid Updated
              (''Updated: '' @ join '', '' (changed_fields t body))]
      else [])"

text \<open>The values the paths hold after the assignments of the controller.\<close>

definition new_title :: "'a task_scheme \<Rightarrow> patch \<Rightarrow> string" where
  "new_title t body =
     (case p_title body of
        None \<Rightarrow> title t
      | Some x \<Rightarrow> if x \<noteq> [] \<and> x \<noteq> title t then trim x else title t)"

definition new_description :: "'a task_scheme \<Rightarrow> patch \<Rightarrow> string option" where
  "new_description t body =
     (case p_description body of
        None \<Rightarrow> description t
      | Some x \<Rightarrow> if Some x \<noteq> description t then Some (trim x) else description t)"

definition new_dueDate :: "'a task_scheme \<Rightarrow> patch \<Rightarrow> date" where
  "new_dueDate t body =
     (case p_dueDate body of
        None \<Rightarrow> dueDate t
      | Some x \<Rightarrow> if valid_date x then x else dueDate t)"

definition new_priority :: "'a task_scheme \<Rightarrow> patch \<Rightarrow> priority" where
  "new_priority t body = (case p_priority body of None \<Rightarrow> priority t | Some x \<Rightarrow> x)"

definition new_status :: "'a task_scheme \<Rightarrow> patch \<Rightarrow> status" where
  "new_status t body = (case p_status body of None \<Rightarrow> status t | Some x \<Rightarrow> x)"

definition new_tags :: "'a task_scheme \<Rightarrow> patch \<Rightarrow> string list" where
  "new_tags t body = (case p_tags body of None \<Rightarrow> tags t | Some x \<Rightarrow> map trim x)"

definition updated :: "date \<Rightarrow> oid \<Rightarrow> patch \<Rightarrow> task \<Rightarrow> task" where
  "updated now uid body t =
     t\<lparr>title := new_title t body,
       description := new_description t body,
       dueDate := new_dueDate t body,
       priority := new_priority t body,
       status := new_status t body,
       tags := new_tags t body,
       auditHistory := auditHistory t @ appended now uid t body,
       completedAt := (if status t \<noteq> Completed \<and> p_status body = Some Completed
                          \<and> completedAt t = None
                       then Some now else completedAt t)\<rparr>"

text \<open>The paths of the patched document that fail validation when it is saved.\<close>

definition update_errors :: "task \<Rightarrow> patch \<Rightarrow> string list" where
  "update_errors t body =
     (case p_dueDate body of None \<Rightarrow> [] | Some x \<Rightarrow> if valid_date x then [] else [''dueDate'']) @
     (if new_title t body \<noteq> title t
         \<and> \<not> (new_title t body \<noteq> [] \<and> length (new_title t body) \<le> 200)
      then [''title''] else []) @
     (if new_description t body \<noteq> description t
         \<and> \<not> (case new_description t body of None \<Rightarrow> True | Some x \<Rightarrow> length x \<le> 5000)
      then [''description''] else []) @
     (if new_tags t body \<noteq> tags t \<and> \<not> list_all (\<lambda>x. length x \<le> 50) (new_tags t body)
      then [''tags''] else [])"

section \<open>How the collection may change\<close>

text \<open>
  \<open>evolves R\<close> relates a collection to a later one: every task of the earlier collection
  is still there, at its place, and \<open>R\<close> relates its earlier to its later version; tasks
  may have been added at the end.
\<close>

definition evolves :: "(task \<Rightarrow> task \<Rightarrow> bool) \<Rightarrow> task list \<Rightarrow> task list \<Rightarrow> bool" where
  "evolves R ts ts' = (length ts \<le> length ts' \<and> list_all2 R ts (take (length ts) ts'))"

definition follows :: "task \<Rightarrow> task \<Rightarrow> bool" where
  "follows t t' =
     (task_id t' = task_id t \<and> prefix (auditHistory t) (auditHistory t')
      \<and> (case completedAt t of None \<Rightarrow> True | Some c \<Rightarrow> completedAt t' = Some c))"

definition audit_append_only :: "task \<Rightarrow> task \<Rightarrow> bool" where
  "audit_append_only t t' =
     (task_id t' = task_id t \<and> prefix (auditHistory t) (auditHistory t'))"

definition keeps_completedAt :: "task \<Rightarrow> task \<Rightarrow> bool" where
  "keeps_completedAt t t' =
     (task_id t' = task_id t
      \<and> (case completedAt t of None \<Rightarrow> True | Some c \<Rightarrow> completedAt t' = Some c))"

text \<open>
  What one request served at the time \<open>now\<close> may do to the completion time of a task: it
  becomes \<open>now\<close> when the task had none and its status becomes Completed, and it stays as
  it was otherwise.
\<close>

definition stamped :: "date \<Rightarrow> task \<Rightarrow> task \<Rightarrow> bool" where
  "stamped now t t' =
     (task_id t' = task_id t
      \<and> completedAt t' =
          (if completedAt t = None \<and> status t \<noteq> Completed \<and> status t' = Completed
           then Some now else completedAt t))"

definition step_follows :: "date \<Rightarrow> task \<Rightarrow> task \<Rightarrow> bool" where
  "step_follows now t t' = (follows t t' \<and> stamped now t t')"

section \<open>What a user deletion does to a task\<close>

definition reassign_text :: "user \<Rightarrow> user \<Rightarrow> string" where
  "reassign_text user reassignUser =
     ''Reassigned from '' @ name user @ '' to '' @ name reassignUser @ '' (user deletion)''"

definition reassigned :: "date \<Rightarrow> oid \<Rightarrow> oid \<Rightarrow> string \<Rightarrow> task \<Rightarrow> task" where
  "reassigned now actor reassignTo text t =
     t\<lparr>assignedTo := reassignTo,
       auditHistory := auditHistory t @ [described_entry now actor Reassigned text]\<rparr>"

definition assigned_to :: "oid \<Rightarrow> task \<Rightarrow> bool" where
  "assigned_to uid t = (assignedTo t = uid \<and> \<not> isDeleted t)"

section \<open>Sequences of requests\<close>

definition route_all :: "db \<Rightarrow> (date \<times> oid \<times> request) list \<Rightarrow> db" where
  "route_all s reqs = fold (\<lambda>(now, uid, req) s. fst (snd (route now s uid req))) reqs s"

section \<open>Runs of the client hook\<close>

fun is_run :: "hook_event \<Rightarrow> bool" where
  "is_run (Run tok) = True"
| "is_run ev = False"

definition scheduled_since :: "hook \<Rightarrow> hook \<Rightarrow> nat list" where
  "scheduled_since h h' = drop (length (timers h)) (delays h')"

definition timers_ok :: "hook \<Rightarrow> bool" where
  "timers_ok h =
     ((case reconnectTimeout h of None \<Rightarrow> True | Some i \<Rightarrow> i < length (timers h))
      \<and> list_all (\<lambda>i. i < length (timers h)) (dead h)
      \<and> attempted h \<le> card (set (dead h)))"

section \<open>Example data\<close>

definition demo_task :: task where
  "demo_task =
     \<lparr>task_id = 1, title = ''Report'', description = None, assignedTo = 7, createdBy = 7,
      status = Completed, priority = Medium, dueDate = 1000, tags = [], attachments = [],
      comments = [], auditHistory = [], completedAt = Some 500, isDeleted = False\<rparr>"

definition demo_patch :: patch where
  "demo_patch =
     \<lparr>p_title = Some ''Plan'', p_description = Some ''x'', p_dueDate = Some 2000,
      p_priority = Some High, p_tags = Some [''a''], p_status = Some InProgress\<rparr>"

definition demo_open_task :: task where
  "demo_open_task =
     \<lparr>task_id = 2, title = ''Slides'', description = Some ''draft'', assignedTo = 7,
      createdBy = 8, status = InProgress, priority = Medium, dueDate = 3000, tags = [''x''],
      attachments = [], comments = [], auditHistory = [], completedAt = None,
      isDeleted = False\<rparr>"

definition ann :: user where
  "ann = \<lparr>u_id = 7, name = ''Ann'', email = ''ann@example.org''\<rparr>"

definition bob :: user where
  "bob = \<lparr>u_id = 8, name = ''Bob'', email = ''bob@example.org''\<rparr>"

definition demo_db :: db where
  "demo_db = \<lparr>users = [ann, bob], tasks = [demo_task, demo_open_task]\<rparr>"

definition priority_patch :: patch where
  "priority_patch =
     \<lparr>p_title = Some ''Deck'', p_description = None, p_dueDate = None, p_priority = Some High,
      p_tags = None, p_status = Some Completed\<rparr>"


definition long_title_patch :: patch where
  "long_title_patch =
     \<lparr>p_title = Some (replicate 201 CHR ''a''), p_description = None, p_dueDate = None,
      p_priority = Some High, p_tags = None, p_status = None\<rparr>"


definition eve :: user where
  "eve = \<lparr>u_id = 10, name = ''Eve'', email = ''eve@example.org''\<rparr>"

definition staff_db :: db where
  "staff_db = \<lparr>users = [ann, bob, eve], tasks = [demo_task, demo_open_task]\<rparr>"

definition demo_stringify :: "message \<Rightarrow> string" where
  "demo_stringify m =
     (case m of CONNECTED uid \<Rightarrow> ''CONNECTED'' | PONG \<Rightarrow> ''PONG'' | Push e \<Rightarrow> ''TASK'')"

definition demo_verify :: "string \<Rightarrow> oid option" where
  "demo_verify tk = (if tk = ''ann'' then Some 7 else if tk = ''bob'' then Some 8 else None)"

definition demo_socket :: "readyState \<Rightarrow> socket" where
  "demo_socket st = \<lparr>userId = Some 7, isAlive = Some True, readyState = st, listening = True\<rparr>"

definition demo_server :: server where
  "demo_server =
     \<lparr>next_ws = 2,
      sockets = (\<lambda>ws. if ws = 0 then demo_socket OPEN else demo_socket CLOSING),
      wss_clients = [0, 1], clients = [7 \<mapsto> [0, 1]], awaiting = Map.empty, pending = [],
      effects = []\<rparr>"

definition leak_events :: "server_event list" where
  "leak_events = [Connection (Some ''ann''), CloseEvent 0, LookupDone 0]"

definition leaked :: server where
  "leaked = server_run demo_stringify demo_verify [ann, bob] leak_events new_server"

definition closing_hook :: hook where
  "closing_hook =
     \<lparr>token = Some ''jwt'', mounted = True, wsRef = Some OPEN, reconnectTimeout = None,
      reconnectAttempts = 0, isConnected = True, timers = [], dead = [], attempted = 0\<rparr>"

section \<open>Properties of the task mutations\<close>

lemma init_simps [simp]:
  "task_id (init t) = task_id t" "title (init t) = title t"
  "description (init t) = description t" "assignedTo (init t) = assignedTo t"
  "createdBy (init t) = createdBy t" "status (init t) = status t"
  "priority (init t) = priority t" "dueDate (init t) = dueDate t" "tags (init t) = tags t"
  "attachments (init t) = attachments t" "comments (init t) = comments t"
  "auditHistory (init t) = auditHistory t" "completedAt (init t) = completedAt t"
  "isDeleted (init t) = isDeleted t" "original (init t) = Some t"
  "isNew (init t) = False" "modifiedPaths (init t) = []" "errors (init t) = []"
  "toObject (init t) = t"
  by (simp_all add: init_def toObject_def task.defs doc.defs)

lemma toObject_simps [simp]:
  "task_id (toObject d) = task_id d" "title (toObject d) = title d"
  "description (toObject d) = description d" "assignedTo (toObject d) = assignedTo d"
  "createdBy (toObject d) = createdBy d" "status (toObject d) = status d"
  "priority (toObject d) = priority d" "dueDate (toObject d) = dueDate d"
  "tags (toObject d) = tags d" "attachments (toObject d) = attachments d"
  "comments (toObject d) = comments d" "auditHistory (toObject d) = auditHistory d"
  "completedAt (toObject d) = completedAt d" "isDeleted (toObject d) = isDeleted d"
  by (simp_all add: toObject_def task.defs doc.defs)

lemma toObject_updates [simp]:
  "toObject (d\<lparr>title := x1\<rparr>) = (toObject d)\<lparr>title := x1\<rparr>"
  "toObject (d\<lparr>description := x2\<rparr>) = (toObject d)\<lparr>description := x2\<rparr>"
  "toObject (d\<lparr>dueDate := x3\<rparr>) = (toObject d)\<lparr>dueDate := x3\<rparr>"
  "toObject (d\<lparr>priority := x4\<rparr>) = (toObject d)\<lparr>priority := x4\<rparr>"
  "toObject (d\<lparr>status := x5\<rparr>) = (toObject d)\<lparr>status := x5\<rparr>"
  "toObject (d\<lparr>tags := x6\<rparr>) = (toObject d)\<lparr>tags := x6\<rparr>"
  "toObject (d\<lparr>completedAt := c\<rparr>) = (toObject d)\<lparr>completedAt := c\<rparr>"
  "toObject (d\<lparr>isDeleted := e\<rparr>) = (toObject d)\<lparr>isDeleted := e\<rparr>"
  "toObject (d\<lparr>assignedTo := a\<rparr>) = (toObject d)\<lparr>assignedTo := a\<rparr>"
  "toObject (d\<lparr>auditHistory := h\<rparr>) = (toObject d)\<lparr>auditHistory := h\<rparr>"
  "toObject (d\<lparr>comments := cs\<rparr>) = (toObject d)\<lparr>comments := cs\<rparr>"
  "toObject (d\<lparr>attachments := as\<rparr>) = (toObject d)\<lparr>attachments := as\<rparr>"
  "toObject (d\<lparr>isNew := b\<rparr>) = toObject d"
  "toObject (d\<lparr>modifiedPaths := ps\<rparr>) = toObject d"
  "toObject (d\<lparr>errors := es\<rparr>) = toObject d"
  by (simp_all add: toObject_def task.defs doc.defs)

lemma set_title_closed:
  "set_title v d =
     d\<lparr>title := trim v,
       modifiedPaths := modifiedPaths d @ (if trim v = title d then [] else [''title''])\<rparr>"
  by (simp add: set_title_def markModified_def Let_def)

lemma set_description_closed:
  "set_description v d =
     d\<lparr>description := Some (trim v),
       modifiedPaths := modifiedPaths d @
         (if Some (trim v) = description d then [] else [''description''])\<rparr>"
  by (simp add: set_description_def markModified_def Let_def)

lemma set_dueDate_closed:
  "set_dueDate v d =
     d\<lparr>dueDate := (if valid_date v then v else dueDate d),
       modifiedPaths := modifiedPaths d @
         (if valid_date v \<and> v \<noteq> dueDate d then [''dueDate''] else []),
       errors := errors d @ (if valid_date v then [] else [''dueDate''])\<rparr>"
  by (simp add: set_dueDate_def markModified_def invalidate_def)

lemma set_priority_closed:
  "set_priority v d =
     d\<lparr>priority := v,
       modifiedPaths := modifiedPaths d @ (if v = priority d then [] else [''priority''])\<rparr>"
  by (simp add: set_priority_def markModified_def)

lemma set_status_closed:
  "set_status v d =
     d\<lparr>status := v,
       modifiedPaths := modifiedPaths d @ (if v = status d then [] else [''status''])\<rparr>"
  by (simp add: set_status_def markModified_def)

lemma set_tags_closed:
  "set_tags v d =
     d\<lparr>tags := map trim v,
       modifiedPaths := modifiedPaths d @ (if map trim v = tags d then [] else [''tags''])\<rparr>"
  by (simp add: set_tags_def markModified_def Let_def)

lemma set_assignedTo_closed:
  "set_assignedTo v d =
     d\<lparr>assignedTo := v,
       modifiedPaths := modifiedPaths d @ (if v = assignedTo d then [] else [''assignedTo''])\<rparr>"
  by (simp add: set_assignedTo_def markModified_def)

lemma set_isDeleted_closed:
  "set_isDeleted v d =
     d\<lparr>isDeleted := v,
       modifiedPaths := modifiedPaths d @ (if v = isDeleted d then [] else [''isDeleted''])\<rparr>"
  by (simp add: set_isDeleted_def markModified_def)

lemma upd_title_doc:
  "fst (upd_title body s) =
     (fst s)\<lparr>title := new_title (fst s) body,
              modifiedPaths := modifiedPaths (fst s) @
                (if new_title (fst s) body = title (fst s) then [] else [''title''])\<rparr>"
  by (cases s) (simp add: upd_title_def set_title_closed new_title_def split: option.splits)

lemma upd_title_fields:
  "map c_field (snd (upd_title body s)) =
     map c_field (snd s) @ (if title_changes (fst s) body then [''title''] else [])"
  by (cases s) (simp add: upd_title_def title_changes_def split: option.splits)

lemma upd_description_doc:
  "fst (upd_description body s) =
     (fst s)\<lparr>description := new_description (fst s) body,
              modifiedPaths := modifiedPaths (fst s) @
                (if new_description (fst s) body = description (fst s) then []
                 else [''description''])\<rparr>"
  by (cases s)
    (simp add: upd_description_def set_description_closed new_description_def
      split: option.splits)

lemma upd_description_fields:
  "map c_field (snd (upd_description body s)) =
     map c_field (snd s) @ (if description_changes (fst s) body then [''description''] else [])"
  by (cases s) (simp add: upd_description_def description_changes_def split: option.splits)

lemma upd_dueDate_doc:
  "fst (upd_dueDate body s) =
     (fst s)\<lparr>dueDate := new_dueDate (fst s) body,
              modifiedPaths := modifiedPaths (fst s) @
                (if new_dueDate (fst s) body = dueDate (fst s) then [] else [''dueDate'']),
              errors := errors (fst s) @
                (case p_dueDate body of
                   None \<Rightarrow> []
                 | Some x \<Rightarrow> if valid_date x then [] else [''dueDate''])\<rparr>"
  by (cases s)
    (auto simp add: upd_dueDate_def set_dueDate_closed new_dueDate_def split: option.splits)

lemma upd_dueDate_fields:
  "map c_field (snd (upd_dueDate body s)) =
     map c_field (snd s) @ (if dueDate_changes (fst s) body then [''dueDate''] else [])"
  by (cases s) (simp add: upd_dueDate_def dueDate_changes_def split: option.splits)

lemma upd_priority_doc:
  "fst (upd_priority now uid body s) =
     (fst s)\<lparr>auditHistory := auditHistory (fst s) @
                (case p_priority body of
                   None \<Rightarrow> []
                 | Some x \<Rightarrow> if x \<noteq> priority (fst s)
                             then [priority_entry now uid (priority (fst s)) x] else []),
              priority := new_priority (fst s) body,
              modifiedPaths := modifiedPaths (fst s) @
                (if new_priority (fst s) body = priority (fst s) then [] else [''priority''])\<rparr>"
  by (cases s)
    (simp add: upd_priority_def set_priority_closed addAuditEntry_def priority_entry_def
      new_priority_def split: option.splits)

lemma upd_priority_fields:
  "map c_field (snd (upd_priority now uid body s)) =
     map c_field (snd s) @ (if priority_changes (fst s) body then [''priority''] else [])"
  by (cases s) (simp add: upd_priority_def priority_changes_def split: option.splits)

lemma upd_status_accept:
  assumes "\<not> reverts (fst s) body"
  shows "\<exists>d' ch'. upd_status now uid body s = Inr (d', ch')
     \<and> d' = (fst s)\<lparr>auditHistory := auditHistory (fst s) @
                (case p_status body of
                   None \<Rightarrow> []
                 | Some x \<Rightarrow> if x \<noteq> status (fst s)
                             then [status_entry now uid (status (fst s)) x] else []),
              status := new_status (fst s) body,
              modifiedPaths := modifiedPaths (fst s) @
                (if status_changes (fst s) body then [''status''] else [])\<rparr>
     \<and> map c_field ch' =
         map c_field (snd s) @ (if status_changes (fst s) body then [''status''] else [])"
  using assms
  by (cases s)
    (auto simp add: upd_status_def set_status_closed addAuditEntry_def status_entry_def
      status_changes_def new_status_def reverts_def split: option.splits)

lemma upd_tags_doc:
  "fst (upd_tags body s) =
     (fst s)\<lparr>tags := new_tags (fst s) body,
              modifiedPaths := modifiedPaths (fst s) @
                (if new_tags (fst s) body = tags (fst s) then [] else [''tags''])\<rparr>"
  by (cases s) (simp add: upd_tags_def set_tags_closed new_tags_def split: option.splits)

lemma upd_tags_changes: "snd (upd_tags body s) = snd s"
  by (cases s) (simp add: upd_tags_def split: option.splits)

lemma upd_summary_doc:
  "upd_summary now uid s =
     (fst s)\<lparr>auditHistory := auditHistory (fst s) @
                (if map c_field (snd s) \<noteq> []
                 then [described_entry now uid Updated
                         (''Updated: '' @ join '', '' (map c_field (snd s)))]
                 else [])\<rparr>"
  by (cases s) (simp add: upd_summary_def addAuditEntry_def describe_def described_entry_def)

lemmas new_defs =
  new_title_def new_description_def new_dueDate_def new_priority_def new_status_def new_tags_def

lemma applyPatch_accept:
  assumes "\<not> reverts t body"
  shows "\<exists>d. applyPatch now uid body (init t) = Inr d
     \<and> toObject d = (updated now uid body t)\<lparr>completedAt := completedAt t\<rparr>
     \<and> original d = Some t
     \<and> isModified ''status'' d = status_changes t body
     \<and> isNew d = False
     \<and> errors d =
         (case p_dueDate body of
            None \<Rightarrow> []
          | Some x \<Rightarrow> if valid_date x then [] else [''dueDate''])
     \<and> modifiedPaths d =
         (if new_title t body = title t then [] else [''title'']) @
         (if new_description t body = description t then [] else [''description'']) @
         (if new_dueDate t body = dueDate t then [] else [''dueDate'']) @
         (if new_priority t body = priority t then [] else [''priority'']) @
         (if status_changes t body then [''status''] else []) @
         (if new_tags t body = tags t then [] else [''tags''])"
proof -
  let ?s = "upd_priority now uid body
              (upd_dueDate body (upd_description body (upd_title body (init t, []))))"
  have f: "title (fst ?s) = new_title t body"
    "description (fst ?s) = new_description t body"
    "dueDate (fst ?s) = new_dueDate t body"
    "priority (fst ?s) = new_priority t body"
    "auditHistory (fst ?s) = auditHistory t @
       (case p_priority body of
          None \<Rightarrow> []
        | Some x \<Rightarrow> if x \<noteq> priority t then [priority_entry now uid (priority t) x] else [])"
    "task_id (fst ?s) = task_id t" "assignedTo (fst ?s) = assignedTo t"
    "createdBy (fst ?s) = createdBy t" "attachments (fst ?s) = attachments t"
    "comments (fst ?s) = comments t" "isDeleted (fst ?s) = isDeleted t"
    by (simp_all add: upd_priority_doc upd_dueDate_doc upd_description_doc upd_title_doc
        new_defs cong: option.case_cong if_cong)
  have st: "status (fst ?s) = status t"
    by (simp add: upd_priority_doc upd_dueDate_doc upd_description_doc upd_title_doc)
  have tg: "tags (fst ?s) = tags t"
    by (simp add: upd_priority_doc upd_dueDate_doc upd_description_doc upd_title_doc)
  have ca: "completedAt (fst ?s) = completedAt t"
    by (simp add: upd_priority_doc upd_dueDate_doc upd_description_doc upd_title_doc)
  have orig: "original (fst ?s) = Some t" "isNew (fst ?s) = False"
    by (simp_all add: upd_priority_doc upd_dueDate_doc upd_description_doc upd_title_doc)
  have mp: "modifiedPaths (fst ?s) =
         (if new_title t body = title t then [] else [''title'']) @
         (if new_description t body = description t then [] else [''description'']) @
         (if new_dueDate t body = dueDate t then [] else [''dueDate'']) @
         (if new_priority t body = priority t then [] else [''priority''])"
    by (simp add: upd_priority_doc upd_dueDate_doc upd_description_doc upd_title_doc new_defs
        cong: option.case_cong if_cong)
  have nm: "''status'' \<notin> set (modifiedPaths (fst ?s))"
    by (simp add: mp)
  have er: "errors (fst ?s) =
      (case p_dueDate body of None \<Rightarrow> [] | Some x \<Rightarrow> if valid_date x then [] else [''dueDate''])"
    by (simp add: upd_priority_doc upd_dueDate_doc upd_description_doc upd_title_doc)
  have fields: "map c_field (snd ?s) =
      (if title_changes t body then [''title''] else []) @
      (if description_changes t body then [''description''] else []) @
      (if dueDate_changes t body then [''dueDate''] else []) @
      (if priority_changes t body then [''priority''] else [])"
    by (simp add: upd_priority_fields upd_dueDate_fields upd_description_fields
        upd_title_fields upd_dueDate_doc upd_description_doc upd_title_doc
        title_changes_def description_changes_def dueDate_changes_def priority_changes_def
        cong: option.case_cong if_cong)
  have "\<not> reverts (fst ?s) body" using assms by (simp add: reverts_def st cong: option.case_cong)
  from upd_status_accept [OF this, of now uid]
  obtain d' ch' where r: "upd_status now uid body ?s = Inr (d', ch')"
    and d': "d' = (fst ?s)\<lparr>auditHistory := auditHistory (fst ?s) @
                (case p_status body of
                   None \<Rightarrow> []
                 | Some x \<Rightarrow> if x \<noteq> status (fst ?s)
                             then [status_entry now uid (status (fst ?s)) x] else []),
              status := new_status (fst ?s) body,
              modifiedPaths := modifiedPaths (fst ?s) @
                (if status_changes (fst ?s) body then [''status''] else [])\<rparr>"
    and ch': "map c_field ch' =
         map c_field (snd ?s) @ (if status_changes (fst ?s) body then [''status''] else [])"
    by blast
  have sc: "status_changes (fst ?s) body = status_changes t body"
    by (simp add: status_changes_def st cong: option.case_cong)
  have all_fields: "map c_field ch' = changed_fields t body"
    by (simp add: ch' fields sc changed_fields_def)
  let ?d = "upd_summary now uid (upd_tags body (d', ch'))"
  have res: "applyPatch now uid body (init t) = Inr ?d"
    by (simp add: applyPatch_def r)
  have "toObject ?d = (updated now uid body t)\<lparr>completedAt := completedAt t\<rparr>"
    by (rule task.equality)
      (simp_all add: upd_summary_doc upd_tags_doc upd_tags_changes all_fields d' f st tg ca
        updated_def appended_def new_defs cong: option.case_cong if_cong)
  moreover have "original ?d = Some t"
    by (simp add: upd_summary_doc upd_tags_doc d' orig)
  moreover have "isNew ?d = False"
    by (simp add: upd_summary_doc upd_tags_doc d' orig)
  moreover have "isModified ''status'' ?d = status_changes t body"
    using nm by (simp add: isModified_def upd_summary_doc upd_tags_doc d' sc)
  moreover have "errors ?d =
      (case p_dueDate body of None \<Rightarrow> [] | Some x \<Rightarrow> if valid_date x then [] else [''dueDate''])"
    by (simp add: upd_summary_doc upd_tags_doc d' er)
  moreover have "modifiedPaths ?d =
         (if new_title t body = title t then [] else [''title'']) @
         (if new_description t body = description t then [] else [''description'']) @
         (if new_dueDate t body = dueDate t then [] else [''dueDate'']) @
         (if new_priority t body = priority t then [] else [''priority'']) @
         (if status_changes t body then [''status''] else []) @
         (if new_tags t body = tags t then [] else [''tags''])"
  proof -
    have a: "modifiedPaths d' =
        modifiedPaths (fst ?s) @ (if status_changes t body then [''status''] else [])"
      "tags d' = tags t"
      by (simp_all add: d' sc tg)
    have b: "new_tags d' body = new_tags t body"
      by (simp add: new_tags_def a(2) cong: option.case_cong)
    show ?thesis by (simp add: upd_summary_doc upd_tags_doc a b mp)
  qed
  ultimately show ?thesis using res by blast
qed

lemma status_upd_title: "status (fst (upd_title body s)) = status (fst s)"
  by (simp add: upd_title_doc)

lemma status_upd_description: "status (fst (upd_description body s)) = status (fst s)"
  by (simp add: upd_description_doc)

lemma status_upd_dueDate: "status (fst (upd_dueDate body s)) = status (fst s)"
  by (simp add: upd_dueDate_doc)

lemma status_upd_priority: "status (fst (upd_priority now uid body s)) = status (fst s)"
  by (simp add: upd_priority_doc)

lemma upd_status_reject:
  assumes "status (fst s) = Completed" "p_status body = Some x" "x \<noteq> Completed"
  shows "upd_status now uid body s = Inl InvalidTransitionError"
  using assms by (cases s) (auto simp add: upd_status_def)

lemma applyPatch_reject:
  assumes "status d = Completed" "p_status body = Some x" "x \<noteq> Completed"
  shows "applyPatch now uid body d = Inl InvalidTransitionError"
proof -
  let ?s = "upd_priority now uid body
               (upd_dueDate body (upd_description body (upd_title body (d, []))))"
  have "status (fst ?s) = Completed"
    using assms(1)
    by (simp add: status_upd_priority status_upd_dueDate status_upd_description status_upd_title)
  then have "upd_status now uid body ?s = Inl InvalidTransitionError"
    using assms(2,3) by (rule upd_status_reject)
  then show ?thesis by (simp add: applyPatch_def)
qed

lemma findOne_Some:
  assumes "findOne ts tid uid = Some t"
  shows "t \<in> set ts" "task_id t = tid" "assignedTo t = uid" "\<not> isDeleted t"
  using assms by (auto simp add: findOne_def find_Some_iff)

lemma distinct_same_id:
  assumes "distinct (map task_id ts)" "x \<in> set ts" "y \<in> set ts" "task_id x = task_id y"
  shows "x = y"
  using assms by (meson distinct_map inj_onD)

lemma persist_present:
  assumes "task_id t \<in> set (map task_id ts)"
  shows "persist t ts = map (\<lambda>x. if task_id x = task_id t then t else x) ts"
  using assms by (simp add: persist_def)

lemma persist_ids:
  assumes "task_id t \<in> set (map task_id ts)"
  shows "map task_id (persist t ts) = map task_id ts"
  using assms by (auto simp add: persist_def)

lemma findById_persist: "findById (persist t ts) (task_id t) = Some t"
proof (cases "task_id t \<in> set (map task_id ts)")
  case True
  then have "find (\<lambda>x. task_id x = task_id t)
               (map (\<lambda>x. if task_id x = task_id t then t else x) ts) = Some t"
    by (induction ts) auto
  with True show ?thesis by (simp add: persist_def findById_def)
next
  case False
  then have "find (\<lambda>x. task_id x = task_id t) (ts @ [t]) = Some t"
    by (induction ts) auto
  with False show ?thesis by (simp add: persist_def findById_def)
qed

lemma pre_save_unmodified: "\<not> isModified ''status'' d \<Longrightarrow> pre_save now d = Inr d"
  by (simp add: pre_save_def)

lemma pre_save_after_patch:
  assumes "\<not> reverts t body"
    and "toObject d = (updated now uid body t)\<lparr>completedAt := completedAt t\<rparr>"
    and "original d = Some t"
    and "isModified ''status'' d = status_changes t body"
  shows "\<exists>d'. pre_save now d = Inr d' \<and> toObject d' = updated now uid body t"
proof -
  have st: "status d = (case p_status body of None \<Rightarrow> status t | Some x \<Rightarrow> x)"
    using arg_cong [OF assms(2), of status] by (simp add: updated_def new_status_def)
  have ca: "completedAt d = completedAt t"
    using arg_cong [OF assms(2), of completedAt] by simp
  show ?thesis
  proof (cases "status_changes t body")
    case False
    then have "pre_save now d = Inr d" using assms(4) by (simp add: pre_save_def)
    moreover have "toObject d = updated now uid body t"
      using False
      by (subst assms(2), intro task.equality)
        (auto simp add: updated_def status_changes_def split: option.splits)
    ultimately show ?thesis by blast
  next
    case True
    then obtain x where x: "p_status body = Some x" "x \<noteq> status t"
      by (auto simp add: status_changes_def split: option.splits)
    have nr: "\<not> (status t = Completed \<and> x \<noteq> Completed)"
      using assms(1) x by (simp add: reverts_def)
    show ?thesis
    proof (cases "x = Completed \<and> completedAt t = None")
      case True
      then have "pre_save now d = Inr (d\<lparr>completedAt := Some now\<rparr>)"
        using assms(3,4) \<open>status_changes t body\<close> x st ca by (simp add: pre_save_def)
      moreover have "toObject (d\<lparr>completedAt := Some now\<rparr>) = updated now uid body t"
        using True x
        by (simp add: assms(2), intro task.equality) (auto simp add: updated_def)
      ultimately show ?thesis by blast
    next
      case False
      then have "pre_save now d = Inr d"
        using assms(3,4) \<open>status_changes t body\<close> x st ca nr by (auto simp add: pre_save_def)
      moreover have "toObject d = updated now uid body t"
        using False x
        by (subst assms(2), intro task.equality) (auto simp add: updated_def)
      ultimately show ?thesis by blast
    qed
  qed
qed

lemma updated_frame [simp]:
  "task_id (updated now uid body t) = task_id t"
  "assignedTo (updated now uid body t) = assignedTo t"
  by (simp_all add: updated_def)

lemma validate_patched:
  assumes "toObject d = (updated now uid body t)\<lparr>completedAt := completedAt t\<rparr>"
    and "isNew d = False"
    and "errors d =
       (case p_dueDate body of None \<Rightarrow> [] | Some x \<Rightarrow> if valid_date x then [] else [''dueDate''])"
    and "modifiedPaths d =
         (if new_title t body = title t then [] else [''title'']) @
         (if new_description t body = description t then [] else [''description'']) @
         (if new_dueDate t body = dueDate t then [] else [''dueDate'']) @
         (if new_priority t body = priority t then [] else [''priority'']) @
         (if status_changes t body then [''status''] else []) @
         (if new_tags t body = tags t then [] else [''tags''])"
  shows "validate d = update_errors t body"
proof -
  have f: "title d = new_title t body" "description d = new_description t body"
    "tags d = new_tags t body"
    using arg_cong [OF assms(1), of title] arg_cong [OF assms(1), of description]
      arg_cong [OF assms(1), of tags]
    by (simp_all add: updated_def)
  show ?thesis
    by (simp add: validate_def assms(2,3,4) path_valid_def update_errors_def f)
qed

lemma updateTask_outcome:
  assumes "findOne ts tid uid = Some t" and "\<not> reverts t body"
  shows "(update_errors t body \<noteq> []
        \<and> updateTask now ts uid tid body =
            (Next (ValidationError (update_errors t body)), ts, []))
     \<or> (update_errors t body = []
        \<and> updateTask now ts uid tid body =
         (TaskResult 200 (Some (updated now uid body t)), persist (updated now uid body t) ts,
          [(toString uid, TASK_UPDATED (Some (updated now uid body t)))])
        \<and> (case p_dueDate body of None \<Rightarrow> True | Some x \<Rightarrow> valid_date x))"
proof -
  from applyPatch_accept [OF assms(2), of now uid]
  obtain d where d: "applyPatch now uid body (init t) = Inr d"
    "toObject d = (updated now uid body t)\<lparr>completedAt := completedAt t\<rparr>"
    "original d = Some t" "isModified ''status'' d = status_changes t body"
    "errors d =
       (case p_dueDate body of None \<Rightarrow> [] | Some x \<Rightarrow> if valid_date x then [] else [''dueDate''])"
    "validate d = update_errors t body"
    using validate_patched by blast
  show ?thesis
  proof (cases "validate d = []")
    case False
    then have "save now ts d = Inl (ValidationError (validate d))" by (simp add: save_def)
    then have "updateTask now ts uid tid body = (Next (ValidationError (validate d)), ts, [])"
      using assms(1) d(1) by (simp add: updateTask_def)
    then show ?thesis using False d(6) by simp
  next
    case True
    from pre_save_after_patch [OF assms(2) d(2,3,4)]
    obtain d' where d': "pre_save now d = Inr d'" "toObject d' = updated now uid body t"
      by blast
    have id: "task_id d' = task_id (updated now uid body t)"
      "assignedTo d' = assignedTo (updated now uid body t)"
      using d'(2) by (metis toObject_simps(1), metis toObject_simps(4))
    have "save now ts d =
        Inr (persist (updated now uid body t) ts, d'\<lparr>isNew := False, modifiedPaths := []\<rparr>)"
      using True by (simp add: save_def d')
    then have "updateTask now ts uid tid body =
         (TaskResult 200 (Some (updated now uid body t)), persist (updated now uid body t) ts,
          [(toString uid, TASK_UPDATED (Some (updated now uid body t)))])"
      using assms(1) d(1) id findById_persist [of "updated now uid body t" ts]
        findOne_Some(2,3) [OF assms(1)]
      by (simp add: updateTask_def Let_def)
    moreover have "errors d = []" using True by (simp add: validate_def)
    then have "case p_dueDate body of None \<Rightarrow> True | Some x \<Rightarrow> valid_date x"
      using d(5) by (auto split: option.splits if_splits)
    ultimately show ?thesis using True d(6) by simp
  qed
qed

lemma updateTask_reject:
  assumes "findOne ts tid uid = Some t" and "reverts t body"
  shows "updateTask now ts uid tid body = (InvalidTransitionError, ts, [])"
proof -
  from assms(2) obtain x where "p_status body = Some x" "status t = Completed" "x \<noteq> Completed"
    by (auto simp add: reverts_def split: option.splits)
  then have "applyPatch now uid body (init t) = Inl InvalidTransitionError"
    by (intro applyPatch_reject) simp_all
  then show ?thesis using assms(1) by (simp add: updateTask_def)
qed

lemma evolves_refl: "(\<And>t. R t t) \<Longrightarrow> evolves R ts ts"
  by (simp add: evolves_def list_all2_same)

lemma evolves_mono:
  assumes "evolves R ts ts'" and "\<And>t t'. R t t' \<Longrightarrow> Q t t'"
  shows "evolves Q ts ts'"
  using assms by (auto simp add: evolves_def elim: list_all2_mono)

lemma follows_refl: "follows t t"
  by (simp add: follows_def split: option.splits)

lemma step_follows_refl: "step_follows now t t"
  by (simp add: step_follows_def stamped_def follows_refl)

lemma evolves_append: "evolves (step_follows now) ts (ts @ us)"
  by (simp add: evolves_def list_all2_same step_follows_refl)

lemma evolves_after_append:
  assumes "evolves R (ts @ us) ts'"
  shows "evolves R ts ts'"
proof -
  have len: "length ts + length us \<le> length ts'"
    and all: "list_all2 R (ts @ us) (take (length ts + length us) ts')"
    using assms by (simp_all add: evolves_def)
  have "\<And>i. i < length ts \<Longrightarrow> R (ts ! i) (ts' ! i)"
  proof -
    fix i assume i: "i < length ts"
    then have "R ((ts @ us) ! i) (take (length ts + length us) ts' ! i)"
      using all by (auto simp add: list_all2_conv_all_nth)
    then show "R (ts ! i) (ts' ! i)" using i by (simp add: nth_append)
  qed
  then show ?thesis using len by (simp add: evolves_def list_all2_conv_all_nth)
qed

lemma persist_follows:
  assumes "distinct (map task_id ts)" and "t0 \<in> set ts" and "step_follows now t0 t'"
  shows "evolves (step_follows now) ts (persist t' ts)
     \<and> map task_id (persist t' ts) = map task_id ts"
proof -
  have id: "task_id t' = task_id t0" using assms(3) by (simp add: step_follows_def follows_def)
  then have present: "task_id t' \<in> set (map task_id ts)" using assms(2) by auto
  have "list_all2 (step_follows now) ts
          (map (\<lambda>x. if task_id x = task_id t' then t' else x) ts)"
  proof -
    have "\<forall>x\<in>set ts. step_follows now x (if task_id x = task_id t' then t' else x)"
    proof
      fix x assume x: "x \<in> set ts"
      show "step_follows now x (if task_id x = task_id t' then t' else x)"
      proof (cases "task_id x = task_id t'")
        case True
        then have "x = t0" using distinct_same_id [OF assms(1) x assms(2)] id by simp
        then show ?thesis using True assms(3) by simp
      next
        case False
        then show ?thesis by (simp add: step_follows_refl)
      qed
    qed
    then show ?thesis by (simp add: list_all2_map2 list_all2_same)
  qed
  then have "evolves (step_follows now) ts (persist t' ts)"
    by (simp add: evolves_def persist_present [OF present])
  then show ?thesis using persist_ids [OF present] by simp
qed

lemma save_result:
  assumes "save now ts d = Inr (ts', d')"
  shows "ts' = persist (toObject d') ts" "task_id d' = task_id d"
    "auditHistory d' = auditHistory d" "assignedTo d' = assignedTo d"
    "status d' = status d" "modifiedPaths d' = []" "errors d' = []" "isNew d' = False"
    "\<not> isModified ''status'' d \<Longrightarrow> completedAt d' = completedAt d"
proof -
  from assms have v: "validate d = []"
    by (auto simp add: save_def split: if_splits)
  with assms obtain e where e: "pre_save now d = Inr e"
    "d' = e\<lparr>isNew := False, modifiedPaths := []\<rparr>" "ts' = persist (toObject e) ts"
    by (auto simp add: save_def split: sum.splits)
  have c: "e = d \<or> (e = d\<lparr>completedAt := Some now\<rparr> \<and> isModified ''status'' d)"
    using e(1) by (auto simp add: pre_save_def Let_def split: if_splits)
  have er: "errors d = []" using v by (simp add: validate_def)
  show "ts' = persist (toObject d') ts" using e by simp
  show "task_id d' = task_id d" using c e(2) by auto
  show "auditHistory d' = auditHistory d" using c e(2) by auto
  show "assignedTo d' = assignedTo d" using c e(2) by auto
  show "status d' = status d" using c e(2) by auto
  show "modifiedPaths d' = []" using e(2) by simp
  show "errors d' = []" using c e(2) er by auto
  show "isNew d' = False" using e(2) by simp
  show "completedAt d' = completedAt d" if "\<not> isModified ''status'' d"
    using c e(2) that by auto
qed

lemma save_follows:
  assumes "save now ts d = Inr (ts', d')" and "distinct (map task_id ts)" and "t0 \<in> set ts"
    and "task_id d = task_id t0" and "prefix (auditHistory t0) (auditHistory d)"
    and "completedAt d = completedAt t0" and "status d = status t0"
    and "\<not> isModified ''status'' d"
  shows "evolves (step_follows now) ts ts' \<and> map task_id ts' = map task_id ts"
proof -
  note r = save_result [OF assms(1)]
  have "step_follows now t0 (toObject d')"
    using r(2,3,5) r(9) [OF assms(8)] assms(4,5,6,7)
    by (auto simp add: step_follows_def stamped_def follows_def split: option.splits)
  from persist_follows [OF assms(2,3) this] show ?thesis using r(1) by simp
qed

lemma follows_trans: "follows a b \<Longrightarrow> follows b c \<Longrightarrow> follows a c"
  by (auto simp add: follows_def split: option.splits)

lemma evolves_trans:
  assumes "evolves follows ts ts'" and "evolves follows ts' ts''"
  shows "evolves follows ts ts''"
proof -
  have len: "length ts \<le> length ts'" "length ts' \<le> length ts''"
    using assms by (simp_all add: evolves_def)
  have a: "\<And>i. i < length ts \<Longrightarrow> follows (ts ! i) (ts' ! i)"
    using assms(1) by (auto simp add: evolves_def list_all2_conv_all_nth)
  have b: "\<And>i. i < length ts' \<Longrightarrow> follows (ts' ! i) (ts'' ! i)"
    using assms(2) by (auto simp add: evolves_def list_all2_conv_all_nth)
  have "\<And>i. i < length ts \<Longrightarrow> follows (ts ! i) (ts'' ! i)"
    using a b len follows_trans by (meson less_le_trans)
  then show ?thesis using len by (simp add: evolves_def list_all2_conv_all_nth)
qed

lemma fold_max_ge: "x \<in> set ids \<Longrightarrow> x \<le> fold max ids (a::nat)"
proof (induction ids arbitrary: a)
  case Nil
  then show ?case by simp
next
  case (Cons y ys)
  have mono: "\<And>b. b \<le> fold max ys (b::nat)"
  proof -
    fix b :: nat show "b \<le> fold max ys b"
      by (induction ys arbitrary: b) (auto intro: le_trans [OF max.cobounded2])
  qed
  show ?case
  proof (cases "x = y")
    case True
    then show ?thesis using mono [of "max y a"] by simp
  next
    case False
    then show ?thesis using Cons by simp
  qed
qed

lemma fresh_id_new: "fresh_id ids \<notin> set ids"
proof
  assume "fresh_id ids \<in> set ids"
  from fold_max_ge [OF this, of 0] show False by (simp add: fresh_id_def)
qed

lemma addAuditEntry_simps [simp]:
  "auditHistory (addAuditEntry now uid act det d) =
     auditHistory d @ [\<lparr>a_user = uid, a_action = act, a_field = d_field det,
          a_oldValue = d_oldValue det, a_newValue = d_newValue det,
          a_description = d_description det, a_timestamp = now\<rparr>]"
  "task_id (addAuditEntry now uid act det d) = task_id d"
  "completedAt (addAuditEntry now uid act det d) = completedAt d"
  "assignedTo (addAuditEntry now uid act det d) = assignedTo d"
  "isDeleted (addAuditEntry now uid act det d) = isDeleted d"
  "status (addAuditEntry now uid act det d) = status d"
  by (simp_all add: addAuditEntry_def)

lemma addAuditEntry_doc [simp]:
  "modifiedPaths (addAuditEntry now uid act det d) = modifiedPaths d"
  "errors (addAuditEntry now uid act det d) = errors d"
  "isNew (addAuditEntry now uid act det d) = isNew d"
  "original (addAuditEntry now uid act det d) = original d"
  by (simp_all add: addAuditEntry_def)

lemma step_follows_updated: "step_follows now t (updated now uid body t)"
  by (auto simp add: step_follows_def stamped_def follows_def updated_def new_status_def
      split: option.splits)

lemma updateTask_stores:
  assumes "findOne ts tid uid = Some t"
    and "updateTask now ts uid tid body = (r, ts', ns)"
  shows "ts' = ts \<or> ts' = persist (updated now uid body t) ts"
proof (cases "reverts t body")
  case True
  from updateTask_reject [OF assms(1) True, of now] show ?thesis using assms(2) by simp
next
  case False
  from updateTask_outcome [OF assms(1) False, of now] show ?thesis using assms(2) by auto
qed

lemma updateTask_follows:
  assumes "distinct (map task_id ts)" and "updateTask now ts uid tid body = (r, ts', ns)"
  shows "evolves (step_follows now) ts ts' \<and> map task_id ts' = map task_id ts"
proof (cases "findOne ts tid uid")
  case None
  then have "ts' = ts" using assms(2) by (simp add: updateTask_def)
  then show ?thesis by (simp add: evolves_refl step_follows_refl)
next
  case (Some t)
  from updateTask_stores [OF Some assms(2)]
  show ?thesis
  proof
    assume "ts' = ts"
    then show ?thesis by (simp add: evolves_refl step_follows_refl)
  next
    assume "ts' = persist (updated now uid body t) ts"
    then show ?thesis
      using persist_follows [OF assms(1) findOne_Some(1) [OF Some] step_follows_updated]
      by simp
  qed
qed

lemma deleteTask_follows:
  assumes "distinct (map task_id ts)" and "deleteTask now ts uid tid = (r, ts', ns)"
  shows "evolves (step_follows now) ts ts' \<and> map task_id ts' = map task_id ts"
proof (cases "findOne ts tid uid")
  case None
  then have "ts' = ts" using assms(2) by (simp add: deleteTask_def)
  then show ?thesis by (simp add: evolves_refl step_follows_refl)
next
  case (Some t)
  let ?d = "set_isDeleted True (init t)"
  show ?thesis
  proof (cases "save now ts ?d")
    case (Inl e)
    then have "ts' = ts" using assms(2) Some by (simp add: deleteTask_def)
    then show ?thesis by (simp add: evolves_refl step_follows_refl)
  next
    case (Inr p)
    then obtain ts1 d1 where s: "save now ts ?d = Inr (ts1, d1)" by (cases p) auto
    then have "ts' = ts1" using assms(2) Some by (simp add: deleteTask_def)
    then show ?thesis
      using save_follows [OF s assms(1) findOne_Some(1) [OF Some]]
      by (simp add: set_isDeleted_closed isModified_def)
  qed
qed

lemma push_comment_simps [simp]:
  "task_id (push_comment c d) = task_id d" "auditHistory (push_comment c d) = auditHistory d"
  "completedAt (push_comment c d) = completedAt d" "status (push_comment c d) = status d"
  "modifiedPaths (push_comment c d) = modifiedPaths d"
  by (simp_all add: push_comment_def invalidate_def Let_def)

lemma push_attachment_simps [simp]:
  "task_id (push_attachment a d) = task_id d"
  "auditHistory (push_attachment a d) = auditHistory d"
  "completedAt (push_attachment a d) = completedAt d"
  "status (push_attachment a d) = status d"
  "modifiedPaths (push_attachment a d) = modifiedPaths d"
  by (simp_all add: push_attachment_def invalidate_def Let_def)

lemma addComment_follows:
  assumes "distinct (map task_id ts)" and "addComment now ts uid tid text = (r, ts', ns)"
  shows "evolves (step_follows now) ts ts' \<and> map task_id ts' = map task_id ts"
proof (cases "findOne ts tid uid")
  case None
  then have "ts' = ts" using assms(2) by (simp add: addComment_def)
  then show ?thesis by (simp add: evolves_refl step_follows_refl)
next
  case (Some t)
  let ?d = "addAuditEntry now uid Comment_added (describe ''Added a comment'')
              (push_comment \<lparr>c_user = uid, c_text = text, c_createdAt = now\<rparr> (init t))"
  show ?thesis
  proof (cases "save now ts ?d")
    case (Inl e)
    then have "ts' = ts" using assms(2) Some by (simp add: addComment_def)
    then show ?thesis by (simp add: evolves_refl step_follows_refl)
  next
    case (Inr p)
    then obtain ts1 d1 where s: "save now ts ?d = Inr (ts1, d1)" by (cases p) auto
    then have "ts' = ts1" using assms(2) Some by (simp add: addComment_def Let_def)
    then show ?thesis
      using save_follows [OF s assms(1) findOne_Some(1) [OF Some]]
      by (simp add: isModified_def)
  qed
qed

lemma addAttachment_follows:
  assumes "distinct (map task_id ts)" and "addAttachment now ts uid tid upload = (r, ts', ns)"
  shows "evolves (step_follows now) ts ts' \<and> map task_id ts' = map task_id ts"
proof (cases "findOne ts tid uid")
  case None
  then have "ts' = ts" using assms(2) by (simp add: addAttachment_def)
  then show ?thesis by (simp add: evolves_refl step_follows_refl)
next
  case (Some t)
  show ?thesis
  proof (cases upload)
    case None
    then have "ts' = ts" using assms(2) Some by (simp add: addAttachment_def)
    then show ?thesis by (simp add: evolves_refl step_follows_refl)
  next
    case (Some f)
    let ?d = "addAuditEntry now uid Attachment_added
                (describe (''Added attachment: '' @ f_originalname f))
                (push_attachment
                   \<lparr>att_id = fresh_id (map att_id (attachments (init t))),
                    filename = f_filename f, originalName = f_originalname f,
                    mimetype = f_mimetype f, att_size = f_size f,
                    uploadedBy = uid, uploadedAt = now\<rparr>
                   (init t))"
    show ?thesis
    proof (cases "save now ts ?d")
      case (Inl e)
      then have "ts' = ts"
        using assms(2) \<open>findOne ts tid uid = Some t\<close> Some by (simp add: addAttachment_def)
      then show ?thesis by (simp add: evolves_refl step_follows_refl)
    next
      case (Inr p)
      then obtain ts1 d1 where s: "save now ts ?d = Inr (ts1, d1)" by (cases p) auto
      then have "ts' = ts1"
        using assms(2) \<open>findOne ts tid uid = Some t\<close> Some
        by (simp add: addAttachment_def Let_def)
      then show ?thesis
        using save_follows [OF s assms(1) findOne_Some(1) [OF \<open>findOne ts tid uid = Some t\<close>]]
        by (simp add: isModified_def)
    qed
  qed
qed

lemma removeAttachment_follows:
  assumes "distinct (map task_id ts)"
    and "removeAttachment now ts uid tid attachmentId = (r, ts', ns)"
  shows "evolves (step_follows now) ts ts' \<and> map task_id ts' = map task_id ts"
proof (cases "findOne ts tid uid")
  case None
  then have "ts' = ts" using assms(2) by (simp add: removeAttachment_def)
  then show ?thesis by (simp add: evolves_refl step_follows_refl)
next
  case (Some t)
  show ?thesis
  proof (cases "find (\<lambda>a. att_id a = attachmentId) (attachments t)")
    case None
    then have "ts' = ts" using assms(2) Some by (simp add: removeAttachment_def)
    then show ?thesis by (simp add: evolves_refl step_follows_refl)
  next
    case (Some a)
    let ?e = "addAuditEntry now uid Attachment_removed
                (describe (''Removed attachment: '' @ originalName a)) (init t)"
    let ?d = "?e\<lparr>attachments := filter (\<lambda>a. att_id a \<noteq> attachmentId) (attachments ?e)\<rparr>"
    show ?thesis
    proof (cases "save now ts ?d")
      case (Inl e)
      then have "ts' = ts"
        using assms(2) \<open>findOne ts tid uid = Some t\<close> Some
        by (simp add: removeAttachment_def Let_def)
      then show ?thesis by (simp add: evolves_refl step_follows_refl)
    next
      case (Inr p)
      then obtain ts1 d1 where s: "save now ts ?d = Inr (ts1, d1)" by (cases p) auto
      then have "ts' = ts1"
        using assms(2) \<open>findOne ts tid uid = Some t\<close> Some
        by (simp add: removeAttachment_def Let_def)
      then show ?thesis
        using save_follows [OF s assms(1) findOne_Some(1) [OF \<open>findOne ts tid uid = Some t\<close>]]
        by (simp add: isModified_def)
    qed
  qed
qed

lemma new_task_simps [simp]:
  "task_id (new_task tid uid body) = tid" "auditHistory (new_task tid uid body) = []"
  "completedAt (new_task tid uid body) = None" "status (new_task tid uid body) = ToDo"
  "original (new_task tid uid body) = None"
  by (simp_all add: new_task_def)

lemma createTask_follows:
  assumes "distinct (map task_id ts)" and "createTask now us ts uid body = (r, ts', ns)"
  shows "evolves (step_follows now) ts ts' \<and> distinct (map task_id ts')"
proof (cases "findUser us (b_assignedTo body)")
  case None
  then have "ts' = ts" using assms(2) by (simp add: createTask_def)
  then show ?thesis using assms(1) by (simp add: evolves_refl step_follows_refl)
next
  case (Some assignedUser)
  let ?n = "fresh_id (map task_id ts)"
  show ?thesis
  proof (cases "save now ts (new_task ?n uid body)")
    case (Inl e)
    then have "ts' = ts" using assms(2) Some by (simp add: createTask_def)
    then show ?thesis using assms(1) by (simp add: evolves_refl step_follows_refl)
  next
    case (Inr p)
    then obtain ts1 d1 where s1: "save now ts (new_task ?n uid body) = Inr (ts1, d1)"
      by (cases p) auto
    note r1 = save_result [OF s1]
    have fresh: "?n \<notin> set (map task_id ts)" by (rule fresh_id_new)
    have id1: "task_id (toObject d1) = ?n" using r1(2) by simp
    have ts1: "ts1 = ts @ [toObject d1]"
      using r1(1) fresh id1 by (simp add: persist_def)
    have d1: "distinct (map task_id ts1)" using assms(1) fresh id1 by (simp add: ts1)
    have e1: "evolves (step_follows now) ts ts1" unfolding ts1 by (rule evolves_append)
    let ?d = "addAuditEntry now uid Created
                (describe (''Task created and assigned to '' @ name assignedUser)) d1"
    show ?thesis
    proof (cases "save now ts1 ?d")
      case (Inl e)
      then have "ts' = ts1" using assms(2) Some s1 by (simp add: createTask_def)
      then show ?thesis using e1 d1 by simp
    next
      case (Inr q)
      then obtain ts2 d2 where s2: "save now ts1 ?d = Inr (ts2, d2)" by (cases q) auto
      then have t': "ts' = ts2" using assms(2) Some s1 by (simp add: createTask_def Let_def)
      have "evolves (step_follows now) ts1 ts2 \<and> map task_id ts2 = map task_id ts1"
      proof (rule save_follows [OF s2 d1])
        show "toObject d1 \<in> set ts1" by (simp add: ts1)
        show "task_id ?d = task_id (toObject d1)" by simp
        show "prefix (auditHistory (toObject d1)) (auditHistory ?d)" by simp
        show "completedAt ?d = completedAt (toObject d1)" by simp
        show "status ?d = status (toObject d1)" by simp
        show "\<not> isModified ''status'' ?d" using r1(6) by (simp add: isModified_def)
      qed
      then have "evolves (step_follows now) (ts @ [toObject d1]) ts2" "distinct (map task_id ts2)"
        using d1 by (simp_all add: ts1)
      then show ?thesis using evolves_after_append t' by blast
    qed
  qed
qed

lemma toObject_reassignTask:
  "toObject (reassignTask now actor r text t) = reassigned now actor r text t"
  by (simp add: reassignTask_def reassigned_def addAuditEntry_def describe_def
      described_entry_def set_assignedTo_closed)

lemma save_reassignTask:
  "save now ts (reassignTask now actor r text t) =
     Inr (persist (reassigned now actor r text t) ts,
          (reassignTask now actor r text t)\<lparr>isNew := False, modifiedPaths := []\<rparr>)"
proof -
  let ?d = "reassignTask now actor r text t"
  have "validate ?d = []"
    by (simp add: validate_def reassignTask_def set_assignedTo_closed path_valid_def)
  moreover have "\<not> isModified ''status'' ?d"
    by (simp add: isModified_def reassignTask_def set_assignedTo_closed)
  ultimately show ?thesis
    by (simp add: save_def pre_save_unmodified toObject_reassignTask)
qed

lemma reassigned_simps [simp]:
  "task_id (reassigned now actor r text t) = task_id t"
  "completedAt (reassigned now actor r text t) = completedAt t"
  "status (reassigned now actor r text t) = status t"
  "assignedTo (reassigned now actor r text t) = r"
  "auditHistory (reassigned now actor r text t) =
     auditHistory t @ [described_entry now actor Reassigned text]"
  by (simp_all add: reassigned_def)

lemma reassignAll_map:
  assumes "distinct (map task_id ts)" and "distinct (map task_id found)"
    and "set found \<subseteq> set ts"
  shows "\<exists>ns'. reassignAll now actor r key text found ts ns =
     Inr (map (\<lambda>x. if x \<in> set found then reassigned now actor r text x else x) ts, ns')"
  using assms
proof (induction found arbitrary: ts ns)
  case Nil
  then show ?case by simp
next
  case (Cons t rest)
  let ?g = "reassigned now actor r text"
  let ?ts1 = "map (\<lambda>x. if x = t then ?g t else x) ts"
  let ?d1 = "(reassignTask now actor r text t)\<lparr>isNew := False, modifiedPaths := []\<rparr>"
  have t_in: "t \<in> set ts" using Cons.prems(3) by simp
  have same: "\<And>x. x \<in> set ts \<Longrightarrow> (task_id x = task_id t) = (x = t)"
    using distinct_same_id [OF Cons.prems(1) _ t_in] by auto
  have "persist (?g t) ts = map (\<lambda>x. if task_id x = task_id (?g t) then ?g t else x) ts"
    using t_in by (intro persist_present) auto
  also have "\<dots> = ?ts1" using same by (intro map_cong) auto
  finally have p: "persist (?g t) ts = ?ts1" .
  have s: "save now ts (reassignTask now actor r text t) = Inr (?ts1, ?d1)"
    by (simp add: save_reassignTask p)
  have ids: "map task_id ?ts1 = map task_id ts" by (induction ts) auto
  have d1: "distinct (map task_id ?ts1)" unfolding ids by (rule Cons.prems(1))
  have d2: "distinct (map task_id rest)" using Cons.prems(2) by simp
  have rest_ne: "\<And>y. y \<in> set rest \<Longrightarrow> task_id y \<noteq> task_id t"
    using Cons.prems(2) by (auto simp add: image_iff)
  have sub: "set rest \<subseteq> set ?ts1"
  proof
    fix y assume y: "y \<in> set rest"
    then have "y \<in> set ts" "y \<noteq> t" using Cons.prems(3) rest_ne by auto
    then show "y \<in> set ?ts1" by (auto simp add: image_iff)
  qed
  from Cons.IH [OF d1 d2 sub]
  obtain ns' where ih: "reassignAll now actor r key text rest ?ts1
       (ns @ [(key, TASK_CREATED (findById ?ts1 (task_id ?d1)))]) =
     Inr (map (\<lambda>x. if x \<in> set rest then ?g x else x) ?ts1, ns')"
    by blast
  have g_notin: "?g t \<notin> set rest" using rest_ne [of "?g t"] by auto
  have "map (\<lambda>x. if x \<in> set rest then ?g x else x) ?ts1 =
        map (\<lambda>x. if x \<in> set (t # rest) then ?g x else x) ts"
    using g_notin by (auto simp add: comp_def)
  then show ?case using s ih by simp
qed

lemma assignedTasks_facts:
  "set (assignedTasks ts uid) \<subseteq> set ts"
  "distinct (map task_id ts) \<Longrightarrow> distinct (map task_id (assignedTasks ts uid))"
  "x \<in> set (assignedTasks ts uid) \<longleftrightarrow> x \<in> set ts \<and> assigned_to uid x"
  by (auto simp add: assignedTasks_def assigned_to_def distinct_map_filter)

lemma reassignAll_assigned:
  assumes "distinct (map task_id ts)"
  shows "\<exists>ns'. reassignAll now actor r key text (assignedTasks ts target) ts ns =
     Inr (map (\<lambda>x. if assigned_to target x then reassigned now actor r text x else x) ts, ns')"
proof -
  from reassignAll_map [OF assms assignedTasks_facts(2) [OF assms] assignedTasks_facts(1)]
  obtain ns' where "reassignAll now actor r key text (assignedTasks ts target) ts ns =
     Inr (map (\<lambda>x. if x \<in> set (assignedTasks ts target) then reassigned now actor r text x else x) ts, ns')"
    by blast
  moreover have "map (\<lambda>x. if x \<in> set (assignedTasks ts target) then reassigned now actor r text x else x) ts
     = map (\<lambda>x. if assigned_to target x then reassigned now actor r text x else x) ts"
    by (intro map_cong) (auto simp add: assignedTasks_facts(3))
  ultimately show ?thesis by auto
qed

lemma castObjectId_nonempty: "castObjectId key = Some r \<Longrightarrow> key \<noteq> []"
  by (auto simp add: castObjectId_def split: if_splits)

lemma deleteUser_reassign:
  assumes "params_id \<noteq> toString requester" and "castObjectId params_id = Some target"
    and "findUser (users s) target = Some user"
    and "0 < countDocuments (tasks s) target"
    and "castObjectId key = Some r" and "findUser (users s) r = Some ru"
    and "distinct (map task_id (tasks s))"
  shows "\<exists>ns. deleteUser now s requester params_id (Some key) =
     (UserDeleted ''User deleted successfully'' (countDocuments (tasks s) target),
      \<lparr>users = findByIdAndDelete (users s) target,
       tasks = map (\<lambda>x. if assigned_to target x
                          then reassigned now requester r (reassign_text user ru) x else x)
                 (tasks s)\<rparr>,
      ns)"
proof -
  from reassignAll_assigned [OF assms(7), of now requester r key "reassign_text user ru" target "[]"]
  obtain ns where "reassignAll now requester r key (reassign_text user ru)
        (assignedTasks (tasks s) target) (tasks s) [] =
     Inr (map (\<lambda>x. if assigned_to target x
                     then reassigned now requester r (reassign_text user ru) x else x)
            (tasks s), ns)"
    by blast
  then show ?thesis
    using assms(1-6) castObjectId_nonempty [OF assms(5)]
    unfolding deleteUser_def reassign_text_def [symmetric] Let_def
    by auto
qed

lemma deleteUser_tasks:
  assumes "distinct (map task_id (tasks s))"
    and "deleteUser now s requester params_id reassignTo = (resp, s', ns)"
  shows "tasks s' = tasks s
     \<or> (\<exists>target r text. tasks s' = map (\<lambda>x. if assigned_to target x
                                        then reassigned now requester r text x else x)
                               (tasks s))"
proof (cases "params_id = toString requester")
  case True
  then show ?thesis using assms(2) by (simp add: deleteUser_def)
next
  case ne: False
  show ?thesis
  proof (cases "castObjectId params_id")
    case None
    then show ?thesis using assms(2) ne by (simp add: deleteUser_def)
  next
    case target: (Some target)
    show ?thesis
    proof (cases "findUser (users s) target")
      case None
      then show ?thesis using assms(2) ne target by (simp add: deleteUser_def)
    next
      case (Some user)
      show ?thesis
      proof (cases "0 < countDocuments (tasks s) target")
        case False
        then show ?thesis using assms(2) ne target Some by (auto simp add: deleteUser_def Let_def)
      next
        case True
        show ?thesis
        proof (cases reassignTo)
          case None
          then show ?thesis
            using assms(2) ne target Some True by (auto simp add: deleteUser_def Let_def)
        next
          case key: (Some key)
          show ?thesis
          proof (cases "key = []")
            case True
            then show ?thesis
              using assms(2) ne target Some \<open>0 < countDocuments (tasks s) target\<close> key
              by (auto simp add: deleteUser_def Let_def)
          next
            case nonempty: False
            show ?thesis
            proof (cases "castObjectId key")
              case None
              then show ?thesis
                using assms(2) ne target Some True key nonempty
                by (auto simp add: deleteUser_def Let_def)
            next
              case r: (Some r)
              show ?thesis
              proof (cases "findUser (users s) r")
                case None
                then show ?thesis
                  using assms(2) ne target Some True key nonempty r
                  by (auto simp add: deleteUser_def Let_def)
              next
                case ru: (Some ru)
                from deleteUser_reassign [OF ne target Some True r ru assms(1), of now]
                show ?thesis using assms(2) key by auto
              qed
            qed
          qed
        qed
      qed
    qed
  qed
qed

lemma step_follows_reassigned: "step_follows now x (reassigned now2 actor r text x)"
  by (simp add: step_follows_def stamped_def follows_def split: option.splits)

lemma deleteUser_follows:
  assumes "distinct (map task_id (tasks s))"
    and "deleteUser now s requester params_id reassignTo = (resp, s', ns)"
  shows "evolves (step_follows now) (tasks s) (tasks s')
     \<and> map task_id (tasks s') = map task_id (tasks s)"
proof -
  from deleteUser_tasks [OF assms]
  consider "tasks s' = tasks s"
    | target r msg where "tasks s' = map (\<lambda>x. if assigned_to target x
                                        then reassigned now requester r msg x else x)
                               (tasks s)"
    by blast
  then show ?thesis
  proof cases
    case 1
    then show ?thesis by (simp add: evolves_refl step_follows_refl)
  next
    case 2
    have "list_all2 (step_follows now) (tasks s) (tasks s')"
      unfolding 2
      by (simp add: list_all2_map2 list_all2_same step_follows_refl step_follows_reassigned)
    moreover have "map task_id (tasks s') = map task_id (tasks s)"
      unfolding 2 by (induction "tasks s") auto
    ultimately show ?thesis by (simp add: evolves_def 2)
  qed
qed

lemma route_follows:
  assumes "distinct (map task_id (tasks s))" and "route now s uid req = (resp, s', ns)"
  shows "evolves (step_follows now) (tasks s) (tasks s') \<and> distinct (map task_id (tasks s'))"
proof (cases req)
  case (CreateTask body)
  obtain r ts' n where c: "createTask now (users s) (tasks s) uid body = (r, ts', n)"
    by (cases "createTask now (users s) (tasks s) uid body") auto
  then have "tasks s' = ts'" using assms(2) CreateTask by (auto simp add: on_tasks_def)
  then show ?thesis using createTask_follows [OF assms(1) c] by simp
next
  case (UpdateTask tid body)
  obtain r ts' n where c: "updateTask now (tasks s) uid tid body = (r, ts', n)"
    by (cases "updateTask now (tasks s) uid tid body") auto
  then have "tasks s' = ts'" using assms(2) UpdateTask by (auto simp add: on_tasks_def)
  then show ?thesis using updateTask_follows [OF assms(1) c] assms(1) by simp
next
  case (DeleteTask tid)
  obtain r ts' n where c: "deleteTask now (tasks s) uid tid = (r, ts', n)"
    by (cases "deleteTask now (tasks s) uid tid") auto
  then have "tasks s' = ts'" using assms(2) DeleteTask by (auto simp add: on_tasks_def)
  then show ?thesis using deleteTask_follows [OF assms(1) c] assms(1) by simp
next
  case (AddComment tid body_text)
  obtain r ts' n where c: "addComment now (tasks s) uid tid body_text = (r, ts', n)"
    by (cases "addComment now (tasks s) uid tid body_text") auto
  then have "tasks s' = ts'" using assms(2) AddComment by (auto simp add: on_tasks_def)
  then show ?thesis using addComment_follows [OF assms(1) c] assms(1) by simp
next
  case (AddAttachment tid f)
  obtain r ts' n where c: "addAttachment now (tasks s) uid tid f = (r, ts', n)"
    by (cases "addAttachment now (tasks s) uid tid f") auto
  then have "tasks s' = ts'" using assms(2) AddAttachment by (auto simp add: on_tasks_def)
  then show ?thesis using addAttachment_follows [OF assms(1) c] assms(1) by simp
next
  case (RemoveAttachment tid aid)
  obtain r ts' n where c: "removeAttachment now (tasks s) uid tid aid = (r, ts', n)"
    by (cases "removeAttachment now (tasks s) uid tid aid") auto
  then have "tasks s' = ts'" using assms(2) RemoveAttachment by (auto simp add: on_tasks_def)
  then show ?thesis using removeAttachment_follows [OF assms(1) c] assms(1) by simp
next
  case (DeleteUser params_id reassignTo)
  then have "deleteUser now s uid params_id reassignTo = (resp, s', ns)" using assms(2) by simp
  from deleteUser_follows [OF assms(1) this] show ?thesis using assms(1) by simp
qed

lemma step_follows_follows: "step_follows now t t' \<Longrightarrow> follows t t'"
  by (simp add: step_follows_def)

lemma route_all_follows:
  assumes "distinct (map task_id (tasks s))"
  shows "evolves follows (tasks s) (tasks (route_all s reqs))
     \<and> distinct (map task_id (tasks (route_all s reqs)))"
  using assms
proof (induction reqs arbitrary: s)
  case Nil
  then show ?case by (simp add: route_all_def evolves_refl follows_refl)
next
  case (Cons q reqs)
  obtain now uid req where q: "q = (now, uid, req)" by (cases q) auto
  obtain resp s1 ns where r: "route now s uid req = (resp, s1, ns)"
    by (cases "route now s uid req") auto
  have step: "route_all s (q # reqs) = route_all s1 reqs" by (simp add: route_all_def q r)
  from route_follows [OF Cons.prems r]
  have a: "evolves follows (tasks s) (tasks s1)" "distinct (map task_id (tasks s1))"
    by (auto intro: evolves_mono step_follows_follows)
  from Cons.IH [OF a(2)] a(1) show ?case unfolding step using evolves_trans by blast
qed

lemma updateTask_accepted:
  assumes "findOne ts tid uid = Some t"
    and "updateTask now ts uid tid body = (TaskResult code r, ts', ns)"
  shows "r = Some (updated now uid body t)" "ts' = persist (updated now uid body t) ts"
    "findById ts' tid = Some (updated now uid body t)"
    "case p_dueDate body of None \<Rightarrow> True | Some x \<Rightarrow> valid_date x"
proof -
  have nr: "\<not> reverts t body"
  proof
    assume "reverts t body"
    from updateTask_reject [OF assms(1) this, of now] show False
      using assms(2) by (simp add: InvalidTransitionError_def)
  qed
  from updateTask_outcome [OF assms(1) nr, of now] assms(2)
  have u: "updateTask now ts uid tid body =
         (TaskResult 200 (Some (updated now uid body t)), persist (updated now uid body t) ts,
          [(toString uid, TASK_UPDATED (Some (updated now uid body t)))])"
    and v: "case p_dueDate body of None \<Rightarrow> True | Some x \<Rightarrow> valid_date x"
    by auto
  show "r = Some (updated now uid body t)" "ts' = persist (updated now uid body t) ts"
    using u assms(2) by simp_all
  then show "findById ts' tid = Some (updated now uid body t)"
    using findById_persist [of "updated now uid body t" ts] findOne_Some(2) [OF assms(1)]
    by simp
  show "case p_dueDate body of None \<Rightarrow> True | Some x \<Rightarrow> valid_date x" by (rule v)
qed

lemma toString_examples:
  "toString 7 = ''000000000000000000000007''" "toString 8 = ''000000000000000000000008''"
  "toString 10 = ''00000000000000000000000a''"
  by code_simp+

lemma castObjectId_examples:
  "castObjectId ''000000000000000000000007'' = Some 7"
  "castObjectId ''000000000000000000000008'' = Some 8"
  "castObjectId ''00000000000000000000000a'' = Some 10"
  "castObjectId ''00000000000000000000000A'' = Some 10"
  by (simp_all add: castObjectId_def from_hex_def hex_value_def)

lemma trim_examples:
  "trim ''Deck'' = ''Deck''" "trim '' a '' = ''a''" "trim ''a'' = ''a''" "trim ''b'' = ''b''"
  "trim (replicate 201 CHR ''a'') = replicate 201 CHR ''a''"
  by (simp_all add: trim_def whitespace_def)

lemma long_title_differs: "replicate 201 CHR ''a'' \<noteq> ''Slides''"
proof
  assume "replicate 201 CHR ''a'' = ''Slides''"
  from arg_cong [OF this, of length] show False by simp
qed

lemma priority_patch_valid: "update_errors demo_open_task priority_patch = []"
  by (simp add: update_errors_def new_defs demo_open_task_def priority_patch_def
      trim_examples)

lemma long_title_patch_invalid: "update_errors demo_open_task long_title_patch = [''title'']"
  by (simp add: update_errors_def new_defs demo_open_task_def long_title_patch_def
      trim_examples long_title_differs)



lemma demo_open_task_found:
  "findOne [demo_open_task] 2 7 = Some demo_open_task"
  "findOne (tasks demo_db) 2 7 = Some demo_open_task"
  by (simp_all add: findOne_def demo_db_def demo_task_def demo_open_task_def)

lemma open_task_not_reverted: "\<not> reverts demo_open_task body"
  by (simp add: reverts_def demo_open_task_def split: option.splits)

text \<open>
  C1. An update of a task whose status is Completed, with a patch that sets another
  status, answers with the invalid-transition failure and leaves the collection as it
  was: no field of the patch and no audit entry is persisted, and nothing is announced.
\<close>

theorem completed_reversion_rejected:
  assumes "findOne ts tid uid = Some t" and "status t = Completed"
    and "p_status body = Some x" and "x \<noteq> Completed"
  shows "updateTask now ts uid tid body = (InvalidTransitionError, ts, [])"
proof -
  have "applyPatch now uid body (init t) = Inl InvalidTransitionError"
    using assms(2-4) by (intro applyPatch_reject) simp_all
  then show ?thesis using assms(1) by (simp add: updateTask_def)
qed

theorem completed_reversion_rejected_witness:
  "findOne [demo_task] 1 7 = Some demo_task \<and> status demo_task = Completed
   \<and> p_status demo_patch = Some InProgress \<and> InProgress \<noteq> Completed
   \<and> updateTask 900 [demo_task] 7 1 demo_patch = (InvalidTransitionError, [demo_task], [])"
proof -
  have a: "findOne [demo_task] 1 7 = Some demo_task" by (simp add: findOne_def demo_task_def)
  have b: "status demo_task = Completed" by (simp add: demo_task_def)
  have c: "p_status demo_patch = Some InProgress" by (simp add: demo_patch_def)
  have d: "InProgress \<noteq> Completed" by simp
  show ?thesis using a b c d completed_reversion_rejected [OF a b c d, of 900] by simp
qed

text \<open>
  C3. Once a task has a completion time, no request changes or clears it, whatever the
  sequence of requests. And a single request, served at the time \<open>now\<close>, gives a task
  that had no completion time the completion time \<open>now\<close> exactly when it turns the status
  of the task from another status into Completed; otherwise it leaves the completion time
  of the task as it was, also when the task was Completed already.
\<close>

theorem completedAt_set_once:
  assumes "distinct (map task_id (tasks s))"
  shows "evolves keeps_completedAt (tasks s) (tasks (route_all s reqs))
     \<and> evolves (stamped now) (tasks s) (tasks (fst (snd (route now s uid req))))"
proof
  from route_all_follows [OF assms, of reqs]
  show "evolves keeps_completedAt (tasks s) (tasks (route_all s reqs))"
    by (auto intro: evolves_mono simp add: follows_def keeps_completedAt_def)
next
  obtain resp s' ns where r: "route now s uid req = (resp, s', ns)"
    by (cases "route now s uid req") auto
  from route_follows [OF assms r]
  show "evolves (stamped now) (tasks s) (tasks (fst (snd (route now s uid req))))"
    by (auto intro: evolves_mono simp add: r step_follows_def)
qed

theorem completedAt_set_once_witness:
  "distinct (map task_id (tasks demo_db))
   \<and> evolves keeps_completedAt (tasks demo_db)
        (tasks (route_all demo_db
           [(900, 7, UpdateTask 2 priority_patch), (950, 7, AddComment 2 ''ok'')]))
   \<and> evolves (stamped 900) (tasks demo_db)
        (tasks (fst (snd (route 900 demo_db 7 (UpdateTask 2 priority_patch)))))
   \<and> map_option completedAt (findById (tasks demo_db) 2) = Some None
   \<and> map_option completedAt
        (findById (tasks (fst (snd (route 900 demo_db 7 (UpdateTask 2 priority_patch))))) 2)
       = Some (Some 900)"
proof -
  have h: "distinct (map task_id (tasks demo_db))"
    by (simp add: demo_db_def demo_task_def demo_open_task_def)
  let ?u = "updated 900 7 priority_patch demo_open_task"
  from updateTask_outcome
    [OF demo_open_task_found(2) open_task_not_reverted [of priority_patch], of 900]
  have u: "updateTask 900 (tasks demo_db) 7 2 priority_patch =
      (TaskResult 200 (Some ?u), persist ?u (tasks demo_db), [(toString 7, TASK_UPDATED (Some ?u))])"
    by (simp add: priority_patch_valid)
  have "findById (persist ?u (tasks demo_db)) 2 = Some ?u"
    using findById_persist [of ?u "tasks demo_db"] by (simp add: demo_open_task_def)
  moreover have "completedAt ?u = Some 900"
    by (simp add: updated_def demo_open_task_def priority_patch_def)
  ultimately have "map_option completedAt
        (findById (tasks (fst (snd (route 900 demo_db 7 (UpdateTask 2 priority_patch))))) 2)
       = Some (Some 900)"
    by (simp add: u on_tasks_def)
  moreover have "map_option completedAt (findById (tasks demo_db) 2) = Some None"
    by (simp add: findById_def demo_db_def demo_task_def demo_open_task_def)
  ultimately show ?thesis
    using h completedAt_set_once [OF h,
      of "[(900, 7, UpdateTask 2 priority_patch), (950, 7, AddComment 2 ''ok'')]"
         900 7 "UpdateTask 2 priority_patch"]
    by simp
qed

text \<open>
  C4. Over any sequence of requests (create, update, soft delete, comment, add or remove
  an attachment, delete a user with reassignment) every task stays in the collection and
  its earlier audit history is a prefix of its later one: entries are only appended.
\<close>

theorem audit_history_append_only:
  assumes "distinct (map task_id (tasks s))"
  shows "evolves audit_append_only (tasks s) (tasks (route_all s reqs))"
  using route_all_follows [OF assms, of reqs]
  by (auto intro: evolves_mono simp add: follows_def audit_append_only_def)

theorem audit_history_append_only_witness:
  "distinct (map task_id (tasks demo_db))
   \<and> evolves audit_append_only (tasks demo_db)
        (tasks (route_all demo_db
           [(900, 7, UpdateTask 2 priority_patch), (950, 7, AddComment 2 ''ok''),
            (960, 8, DeleteUser ''000000000000000000000007''
                       (Some ''000000000000000000000008''))]))"
proof -
  have h: "distinct (map task_id (tasks demo_db))"
    by (simp add: demo_db_def demo_task_def demo_open_task_def)
  from audit_history_append_only [OF h] h show ?thesis by blast
qed

text \<open>
  C5, as stated, fails for an update that is not accepted: the patch that sets the
  priority of the open task to High and its title to 201 characters changes the priority
  in the sense of the claim, but the save fails the validation of the title, the
  collection stays as it was and no audit entry is appended.
\<close>

theorem priority_change_audited_counterexample:
  "findOne [demo_open_task] 2 7 = Some demo_open_task
   \<and> p_priority long_title_patch = Some High
   \<and> High \<noteq> priority demo_open_task
   \<and> updateTask 900 [demo_open_task] 7 2 long_title_patch
       = (Next (ValidationError [''title'']), [demo_open_task], [])"
  using updateTask_outcome
    [OF demo_open_task_found(1) open_task_not_reverted [of long_title_patch], of 900]
  by (simp add: long_title_patch_invalid demo_open_task_found)
    (simp add: long_title_patch_def demo_open_task_def)

text \<open>
  C5, amended. An update that is accepted (the controller answers with the updated task)
  and whose patch changes the priority appends, for that change, one priority-changed
  entry with the old and the new priority and, last, one generic entry whose description
  is \<open>Updated:\<close> followed by the names of the changed fields, joined by a comma and a
  space, in the order title, description, dueDate, priority, status. The only other entry
  the update can append is the status-changed entry of a status change in the same patch,
  which stands between the two.
\<close>

theorem priority_change_audited:
  assumes "findOne ts tid uid = Some t" and "p_priority body = Some p" and "p \<noteq> priority t"
    and "updateTask now ts uid tid body = (TaskResult code r, ts', ns)"
  shows "\<exists>t'. r = Some t' \<and> ts' = persist t' ts \<and> findById ts' tid = Some t'
     \<and> priority t' = p
     \<and> auditHistory t' =
         auditHistory t @ [priority_entry now uid (priority t) p] @
         (case p_status body of
            None \<Rightarrow> []
          | Some x \<Rightarrow> if x \<noteq> status t then [status_entry now uid (status t) x] else []) @
         [described_entry now uid Updated (''Updated: '' @ join '', '' (changed_fields t body))]
     \<and> filter (\<lambda>e. a_action e \<noteq> Status_changed)
           (drop (length (auditHistory t)) (auditHistory t')) =
         [priority_entry now uid (priority t) p,
          described_entry now uid Updated (''Updated: '' @ join '', '' (changed_fields t body))]
     \<and> ''priority'' \<in> set (changed_fields t body)"
proof -
  let ?t' = "updated now uid body t"
  note acc = updateTask_accepted [OF assms(1,4)]
  have cf: "''priority'' \<in> set (changed_fields t body)"
    using assms(2,3) by (simp add: changed_fields_def priority_changes_def)
  then have ne: "changed_fields t body \<noteq> []" by auto
  have "priority ?t' = p" using assms(2) by (simp add: updated_def new_priority_def)
  moreover have "auditHistory ?t' =
         auditHistory t @ [priority_entry now uid (priority t) p] @
         (case p_status body of
            None \<Rightarrow> []
          | Some x \<Rightarrow> if x \<noteq> status t then [status_entry now uid (status t) x] else []) @
         [described_entry now uid Updated (''Updated: '' @ join '', '' (changed_fields t body))]"
    using assms(2,3) ne by (simp add: updated_def appended_def)
  moreover from this have "filter (\<lambda>e. a_action e \<noteq> Status_changed)
           (drop (length (auditHistory t)) (auditHistory ?t')) =
         [priority_entry now uid (priority t) p,
          described_entry now uid Updated (''Updated: '' @ join '', '' (changed_fields t body))]"
    by (simp add: priority_entry_def status_entry_def described_entry_def
        split: option.splits)
  ultimately show ?thesis using cf acc(1,2,3) by blast
qed

theorem priority_change_audited_witness:
  "findOne [demo_open_task] 2 7 = Some demo_open_task
   \<and> p_priority priority_patch = Some High
   \<and> High \<noteq> priority demo_open_task
   \<and> fst (updateTask 900 [demo_open_task] 7 2 priority_patch)
       = TaskResult 200 (Some (updated 900 7 priority_patch demo_open_task))
   \<and> map_option auditHistory
        (findById (fst (snd (updateTask 900 [demo_open_task] 7 2 priority_patch))) 2)
       = Some [priority_entry 900 7 Medium High, status_entry 900 7 InProgress Completed,
               described_entry 900 7 Updated ''Updated: title, priority, status'']"
proof -
  let ?u = "updated 900 7 priority_patch demo_open_task"
  have p: "p_priority priority_patch = Some High" by (simp add: priority_patch_def)
  have n: "High \<noteq> priority demo_open_task" by (simp add: demo_open_task_def)
  have cf: "changed_fields demo_open_task priority_patch = [''title'', ''priority'', ''status'']"
    by (simp add: changed_fields_def title_changes_def description_changes_def
        dueDate_changes_def priority_changes_def status_changes_def demo_open_task_def
        priority_patch_def)
  from updateTask_outcome
    [OF demo_open_task_found(1) open_task_not_reverted [of priority_patch], of 900]
  have u: "updateTask 900 [demo_open_task] 7 2 priority_patch =
      (TaskResult 200 (Some ?u), persist ?u [demo_open_task], [(toString 7, TASK_UPDATED (Some ?u))])"
    by (simp add: priority_patch_valid)
  from priority_change_audited [OF demo_open_task_found(1) p n u]
  obtain t' where t': "Some ?u = Some t'"
    "findById (persist ?u [demo_open_task]) 2 = Some t'"
    "auditHistory t' =
         auditHistory demo_open_task @ [priority_entry 900 7 (priority demo_open_task) High] @
         (case p_status priority_patch of
            None \<Rightarrow> []
          | Some x \<Rightarrow> if x \<noteq> status demo_open_task
                      then [status_entry 900 7 (status demo_open_task) x] else []) @
         [described_entry 900 7 Updated
            (''Updated: '' @ join '', '' (changed_fields demo_open_task priority_patch))]"
    by blast
  have "auditHistory t' =
      [priority_entry 900 7 Medium High, status_entry 900 7 InProgress Completed,
       described_entry 900 7 Updated ''Updated: title, priority, status'']"
    unfolding t'(3) cf by (simp add: demo_open_task_def priority_patch_def)
  then show ?thesis using demo_open_task_found(1) p n t'(1,2) by (simp add: u)
qed








text \<open>
  C10 does not hold of the code. Eve's id is the number ten, whose string form is
  twenty-three zeros and the letter \<open>a\<close>. Her request to delete the user named by the same
  digits with the letter in upper case passes the guard, which compares the strings; the
  lookup and the deletion cast the string to her id, and her own account is deleted. The
  request that names her by the string form of her id is refused.
\<close>

theorem self_deletion_by_other_spelling:
  "findUser (users staff_db) 10 = Some eve
   \<and> toString 10 = ''00000000000000000000000a''
   \<and> castObjectId ''00000000000000000000000A'' = Some 10
   \<and> deleteUser 900 staff_db 10 ''00000000000000000000000a'' None
       = (Failure 400 ''You cannot delete your own account'', staff_db, [])
   \<and> deleteUser 900 staff_db 10 ''00000000000000000000000A'' None
       = (UserDeleted ''User deleted successfully'' 0,
          \<lparr>users = [ann, bob], tasks = tasks staff_db\<rparr>, [])
   \<and> findUser [ann, bob] 10 = None"
  by (simp add: deleteUser_def toString_examples castObjectId_examples findUser_def
      countDocuments_def assignedTasks_def findByIdAndDelete_def staff_db_def demo_task_def
      demo_open_task_def ann_def bob_def eve_def)

section \<open>Properties of the connection registry\<close>

lemma fold_send:
  "fold (\<lambda>ws s. if readyState (sockets s ws) = OPEN then ws_send s ws str else s) conns s =
     s\<lparr>effects := effects s @ map (\<lambda>ws. Sent ws str) (filter (is_open s) conns)\<rparr>"
proof (induction conns arbitrary: s)
  case Nil
  then show ?case by simp
next
  case (Cons ws conns)
  have o: "\<And>t. is_open (ws_send s ws t) = is_open s"
    by (simp add: is_open_def ws_send_def fun_eq_iff)
  show ?case
    by (simp add: Cons.IH o) (simp add: ws_send_def is_open_def [abs_def])
qed

lemma broadcastToUser_closed:
  "broadcastToUser stringify s uid m =
     (case clients s uid of
        None \<Rightarrow> s
      | Some conns \<Rightarrow>
          s\<lparr>effects := effects s @ Serialized m #
                map (\<lambda>ws. Sent ws (stringify m)) (filter (is_open s) conns)\<rparr>)"
proof (cases "clients s uid")
  case None
  then show ?thesis by (simp add: broadcastToUser_def)
next
  case (Some conns)
  have o: "is_open (s\<lparr>effects := effects s @ [Serialized m]\<rparr>) = is_open s"
    by (simp add: is_open_def fun_eq_iff)
  show ?thesis
    by (simp add: broadcastToUser_def Some JSON_stringify_def fold_send o)
qed

lemma heartbeat_idle:
  assumes "wss_clients s = []" and "pending s = []"
  shows "heartbeat s = s"
  using assms by (simp add: heartbeat_def sweep_def drain_def)

lemma leaked_state:
  "clients leaked 7 = Some [0]" "wss_clients leaked = []" "pending leaked = []"
  "readyState (sockets leaked 0) = CLOSED" "isAlive (sockets leaked 0) = Some True"
  "listening (sockets leaked 0)"
  "effects leaked = [Serialized (CONNECTED 7), Sent 0 ''CONNECTED'']"
  by (simp_all add: leaked_def leak_events_def server_run_def connection_def
      handleConnection_def handleConnection_resumed_def demo_verify_def emit_close_def
      register_def JSON_stringify_def ws_send_def set_add_def findUser_def ann_def bob_def
      demo_stringify_def new_server_def Let_def)

text \<open>
  C7, as stated, fails for a user id that has no entry in the registry: the event is not
  serialized at all.
\<close>

theorem sendToUser_serializes_once_counterexample:
  "clients new_server 7 = None
   \<and> serialized_count (broadcastToUser demo_stringify new_server 7 (Push (TASK_DELETED 1)))
        (Push (TASK_DELETED 1))
       \<noteq> serialized_count new_server (Push (TASK_DELETED 1)) + 1"
  by (simp add: broadcastToUser_def new_server_def serialized_count_def)

text \<open>
  C7, amended. For a user id that has a set in the registry, the event is serialized once
  and that one payload is sent to every connection of the set whose transport is open, in
  the order of the set; the connections that are not open are passed over, and nothing
  else changes. For a user id without a set nothing happens: the event is not serialized.
\<close>

theorem sendToUser_delivery:
  "broadcastToUser stringify s uid m =
     (case clients s uid of
        None \<Rightarrow> s
      | Some conns \<Rightarrow>
          s\<lparr>effects := effects s @ Serialized m #
                map (\<lambda>ws. Sent ws (stringify m)) (filter (is_open s) conns)\<rparr>)"
  by (rule broadcastToUser_closed)

theorem sendToUser_delivery_witness:
  "clients demo_server 7 = Some [0, 1]
   \<and> effects (broadcastToUser demo_stringify demo_server 7 (Push (TASK_DELETED 1)))
       = [Serialized (Push (TASK_DELETED 1)), Sent 0 ''TASK'']
   \<and> broadcastToUser demo_stringify demo_server 8 (Push (TASK_DELETED 1)) = demo_server"
proof -
  have a: "clients demo_server 7 = Some [0, 1]" by (simp add: demo_server_def)
  have b: "clients demo_server 8 = None" by (simp add: demo_server_def)
  have c: "is_open demo_server 0" "\<not> is_open demo_server (Suc 0)"
    by (simp_all add: is_open_def demo_server_def demo_socket_def)
  have d: "effects demo_server = []" by (simp add: demo_server_def)
  show ?thesis
    using sendToUser_delivery [of demo_stringify demo_server 7 "Push (TASK_DELETED 1)"]
      sendToUser_delivery [of demo_stringify demo_server 8 "Push (TASK_DELETED 1)"]
    by (simp add: a b c d demo_stringify_def)
qed

text \<open>
  C8 does not hold of the code. A client connects with Ann's token and its socket closes
  while the handshake waits for the lookup of the user; the listeners are not installed
  yet, so the close event is lost. The resumed handshake then enters the closed socket in
  the registry. The sweep walks the library's set of sockets, which the closed socket has
  left: no firing of the interval clears its flag, sends it a probe or terminates it, and
  it stays in the registry with its flag up.
\<close>

theorem liveness_sweep_skips_registered_socket:
  "leaked = server_run demo_stringify demo_verify [ann, bob]
              [Connection (Some ''ann''), CloseEvent 0, LookupDone 0] new_server
   \<and> tracked leaked 0
   \<and> clients leaked 7 = Some [0]
   \<and> readyState (sockets leaked 0) = CLOSED
   \<and> isAlive (sockets leaked 0) = Some True
   \<and> wss_clients leaked = []
   \<and> heartbeat leaked = leaked
   \<and> server_run demo_stringify demo_verify [ann, bob] [Heartbeat, Heartbeat] leaked = leaked"
proof -
  have h: "heartbeat leaked = leaked"
    using leaked_state(2,3) by (rule heartbeat_idle)
  have "tracked leaked 0"
    unfolding tracked_def using leaked_state(1) by (intro exI [of _ 7] exI [of _ "[0]"]) simp
  moreover have "server_run demo_stringify demo_verify [ann, bob] [Heartbeat, Heartbeat] leaked
      = leaked"
    by (simp add: server_run_def h)
  moreover have "leaked = server_run demo_stringify demo_verify [ann, bob]
              [Connection (Some ''ann''), CloseEvent 0, LookupDone 0] new_server"
    by (simp add: leaked_def leak_events_def)
  ultimately show ?thesis using h leaked_state by simp
qed

section \<open>Properties of the client hook\<close>

lemma onclose_schedules:
  assumes "mounted h" and "code \<noteq> 1000" and "reconnectAttempts h < 3" and "truthy (token h)"
  shows "onclose code h =
     h\<lparr>isConnected := False, wsRef := None, reconnectAttempts := reconnectAttempts h + 1,
       reconnectTimeout := Some (length (timers h)),
       timers := timers h @ [(3000 * (reconnectAttempts h + 1), token h)]\<rparr>"
  using assms by (simp add: onclose_def Let_def)

lemma onclose_quiet:
  assumes "code = 1000 \<or> \<not> truthy (token h) \<or> \<not> mounted h \<or> 3 \<le> reconnectAttempts h"
  shows "timers (onclose code h) = timers h"
    and "reconnectAttempts (onclose code h) = reconnectAttempts h"
    and "attempted (onclose code h) = attempted h"
  using assms by (auto simp add: onclose_def Let_def)

lemma onclose_cases:
  "(reconnectAttempts (onclose code h) = reconnectAttempts h \<and> timers (onclose code h) = timers h)
   \<or> (reconnectAttempts h < 3 \<and> reconnectAttempts (onclose code h) = reconnectAttempts h + 1
       \<and> delays (onclose code h) = delays h @ [3000 * (reconnectAttempts h + 1)])"
  by (auto simp add: onclose_def Let_def delays_def)

lemma step_cases:
  assumes "ev \<noteq> Open"
  shows "(reconnectAttempts (hook_step ev h) = reconnectAttempts h
           \<and> timers (hook_step ev h) = timers h)
   \<or> (reconnectAttempts h < 3 \<and> reconnectAttempts (hook_step ev h) = reconnectAttempts h + 1
       \<and> delays (hook_step ev h) = delays h @ [3000 * (reconnectAttempts h + 1)])"
proof (cases ev)
  case (Run tok)
  then show ?thesis by (simp add: effect_body_def Let_def)
next
  case Open
  then show ?thesis using assms by simp
next
  case (Close code)
  show ?thesis
  proof (cases "wsRef h")
    case None
    then show ?thesis using Close by simp
  next
    case (Some ws)
    show ?thesis
    proof (cases "ws = CLOSED")
      case True
      then show ?thesis using Close Some by simp
    next
      case False
      then show ?thesis
        using Close Some onclose_cases [of code "h\<lparr>wsRef := Some CLOSED\<rparr>"]
        by (simp add: delays_def)
    qed
  qed
next
  case (Timer i)
  then show ?thesis by (simp add: timer_callback_def)
next
  case Cleanup
  then show ?thesis by (simp add: cleanup_def Let_def split: option.splits)
qed

lemma run_delays:
  assumes "Open \<notin> set evs"
  shows "\<exists>n. reconnectAttempts (hook_run evs h) = n \<and> reconnectAttempts h \<le> n
     \<and> n \<le> max 3 (reconnectAttempts h)
     \<and> delays (hook_run evs h) =
         delays h @ map (\<lambda>k. 3000 * k) [Suc (reconnectAttempts h)..<Suc n]"
  using assms
proof (induction evs arbitrary: h)
  case Nil
  then show ?case by (simp add: hook_run_def)
next
  case (Cons ev evs)
  let ?h1 = "hook_step ev h"
  let ?a = "reconnectAttempts h"
  have ne: "ev \<noteq> Open" "Open \<notin> set evs" using Cons.prems by auto
  from Cons.IH [OF ne(2), of ?h1]
  obtain n where n: "reconnectAttempts (hook_run evs ?h1) = n" "reconnectAttempts ?h1 \<le> n"
    "n \<le> max 3 (reconnectAttempts ?h1)"
    "delays (hook_run evs ?h1) =
       delays ?h1 @ map (\<lambda>k. 3000 * k) [Suc (reconnectAttempts ?h1)..<Suc n]"
    by blast
  have run: "hook_run (ev # evs) h = hook_run evs ?h1" by (simp add: hook_run_def)
  from step_cases [OF ne(1), of h]
  show ?case
  proof
    assume same: "reconnectAttempts ?h1 = ?a \<and> timers ?h1 = timers h"
    then have "delays ?h1 = delays h" by (simp add: delays_def)
    then show ?thesis using n same unfolding run by auto
  next
    assume inc: "?a < 3 \<and> reconnectAttempts ?h1 = ?a + 1
       \<and> delays ?h1 = delays h @ [3000 * (?a + 1)]"
    then have le: "Suc ?a \<le> n" using n(2) by simp
    have "[Suc ?a..<Suc n] = Suc ?a # [Suc (Suc ?a)..<Suc n]"
      using le by (simp add: upt_conv_Cons)
    then have "delays (hook_run evs ?h1) =
        delays h @ map (\<lambda>k. 3000 * k) [Suc ?a..<Suc n]"
      using n(4) inc by simp
    moreover have "?a \<le> n" "n \<le> max 3 ?a" using le n(3) inc by auto
    ultimately show ?thesis using n(1) unfolding run by auto
  qed
qed

lemma sorted_multiples: "sorted_wrt (<) (map (\<lambda>k. 3000 * k) [i..<j::nat])"
  by (simp add: sorted_wrt_map sorted_wrt_iff_nth_less)

lemma torn_down_step:
  assumes "\<not> mounted h" and "wsRef h = None" and "\<not> is_run ev"
  shows "\<not> mounted (hook_step ev h) \<and> wsRef (hook_step ev h) = None
     \<and> timers (hook_step ev h) = timers h \<and> attempted (hook_step ev h) = attempted h"
  using assms
  by (cases ev) (auto simp add: timer_callback_def cleanup_def Let_def split: option.splits)

lemma torn_down_run:
  assumes "\<not> mounted h" and "wsRef h = None" and "\<forall>ev\<in>set evs. \<not> is_run ev"
  shows "timers (hook_run evs h) = timers h \<and> attempted (hook_run evs h) = attempted h"
  using assms
proof (induction evs arbitrary: h)
  case Nil
  then show ?case by (simp add: hook_run_def)
next
  case (Cons ev evs)
  have nr: "\<not> is_run ev" "\<forall>ev\<in>set evs. \<not> is_run ev" using Cons.prems(3) by auto
  note s = torn_down_step [OF Cons.prems(1,2) nr(1)]
  from Cons.IH [of "hook_step ev h"] s nr(2)
  show ?case by (simp add: hook_run_def)
qed

lemma cleanup_closed:
  "cleanup h =
     h\<lparr>mounted := False,
       dead := (case reconnectTimeout h of None \<Rightarrow> dead h | Some i \<Rightarrow> dead h @ [i]),
       reconnectTimeout := None, wsRef := None\<rparr>"
  by (cases "reconnectTimeout h"; cases "wsRef h") (simp_all add: cleanup_def Let_def)

lemma cleanup_simps:
  "\<not> mounted (cleanup h)" "wsRef (cleanup h) = None" "timers (cleanup h) = timers h"
  "attempted (cleanup h) = attempted h"
  by (simp_all add: cleanup_def Let_def split: option.splits)

lemma timers_ok_step:
  assumes "timers_ok h"
  shows "timers_ok (hook_step ev h)"
proof (cases ev)
  case (Run tok)
  then show ?thesis
    using assms by (auto simp add: timers_ok_def effect_body_def Let_def split: option.splits)
next
  case Open
  then show ?thesis
    using assms by (auto simp add: timers_ok_def onopen_def split: option.splits)
next
  case (Close code)
  have "timers_ok (onclose code (h\<lparr>wsRef := Some CLOSED\<rparr>))"
    using assms
    by (auto simp add: timers_ok_def onclose_def Let_def list_all_iff less_Suc_eq
        split: option.splits)
  then show ?thesis using Close assms by (simp split: option.splits)
next
  case (Timer i)
  show ?thesis
  proof (cases "i < length (timers h) \<and> i \<notin> set (dead h)")
    case False
    then show ?thesis using Timer assms by auto
  next
    case True
    then have "card (set (dead h @ [i])) = Suc (card (set (dead h)))" by simp
    then show ?thesis
      using Timer True assms
      by (auto simp add: timers_ok_def timer_callback_def split: option.splits)
  qed
next
  case Cleanup
  show ?thesis
  proof (cases "reconnectTimeout h")
    case None
    then show ?thesis
      using Cleanup assms by (simp add: timers_ok_def cleanup_def Let_def split: option.splits)
  next
    case (Some i)
    have "card (set (dead h)) \<le> card (set (dead h @ [i]))"
      by (intro card_mono) auto
    then show ?thesis
      using Cleanup Some assms
      by (auto simp add: timers_ok_def cleanup_def Let_def split: option.splits)
  qed
qed

lemma timers_ok_run: "timers_ok h \<Longrightarrow> timers_ok (hook_run evs h)"
  unfolding hook_run_def by (induction evs arbitrary: h) (simp_all add: timers_ok_step)

lemma timers_ok_bound:
  assumes "timers_ok h"
  shows "attempted h \<le> length (timers h)"
proof -
  have "set (dead h) \<subseteq> {..<length (timers h)}"
    using assms by (auto simp add: timers_ok_def list_all_iff)
  then have "card (set (dead h)) \<le> card {..<length (timers h)}"
    by (intro card_mono) auto
  then show ?thesis using assms by (simp add: timers_ok_def)
qed

lemma no_socket_step:
  assumes "wsRef h = None \<or> wsRef h = Some CLOSED" and "\<not> is_run ev"
  shows "(wsRef (hook_step ev h) = None \<or> wsRef (hook_step ev h) = Some CLOSED)
     \<and> timers (hook_step ev h) = timers h"
  using assms
  by (cases ev) (auto simp add: timer_callback_def cleanup_def Let_def split: option.splits)

lemma no_socket_run:
  assumes "wsRef h = None \<or> wsRef h = Some CLOSED" and "\<forall>ev\<in>set evs. \<not> is_run ev"
  shows "timers (hook_run evs h) = timers h"
  using assms
proof (induction evs arbitrary: h)
  case Nil
  then show ?case by (simp add: hook_run_def)
next
  case (Cons ev evs)
  have nr: "\<not> is_run ev" "\<forall>ev\<in>set evs. \<not> is_run ev" using Cons.prems(2) by auto
  note s = no_socket_step [OF Cons.prems(1) nr(1)]
  from Cons.IH [of "hook_step ev h"] s nr(2)
  show ?case by (simp add: hook_run_def)
qed

lemma after_close:
  "wsRef (hook_step (Close code) h) = None \<or> wsRef (hook_step (Close code) h) = Some CLOSED"
  by (auto simp add: onclose_def Let_def split: option.splits)

text \<open>
  C9. A closure of the socket with a code other than 1000, while the hook is mounted, holds
  a token and has counted fewer than three attempts, adds one to the count and sets one
  timer whose delay is 3000 milliseconds times the new count; a closure with code 1000, or
  without a token, or when the hook is not mounted, or after three attempts, sets none.
  Between two openings at most three timers are set, with the delays 3000, 6000, 9000 in
  this order, and a reconnection is attempted only by a timer that was set. After a
  closure no further timer is set until the effect runs again, and after the cleanup,
  until the effect runs again, no timer is set and no reconnection is attempted.
\<close>

theorem reconnection_bounded:
  "(mounted h \<and> code \<noteq> 1000 \<and> reconnectAttempts h < 3 \<and> truthy (token h) \<longrightarrow>
      reconnectAttempts (onclose code h) = reconnectAttempts h + 1
      \<and> delays (onclose code h) = delays h @ [3000 * (reconnectAttempts h + 1)])
   \<and> (code = 1000 \<or> \<not> truthy (token h) \<or> \<not> mounted h \<or> 3 \<le> reconnectAttempts h \<longrightarrow>
        timers (onclose code h) = timers h \<and> attempted (onclose code h) = attempted h)
   \<and> ((\<forall>ev\<in>set evs. \<not> is_run ev) \<longrightarrow>
        timers (hook_run evs (hook_step (Close code) h)) = timers (hook_step (Close code) h))
   \<and> (Open \<notin> set evs \<and> reconnectAttempts h = 0 \<longrightarrow>
        length (scheduled_since h (hook_run evs h)) \<le> 3
        \<and> sorted_wrt (<) (scheduled_since h (hook_run evs h))
        \<and> scheduled_since h (hook_run evs h) =
            map (\<lambda>k. 3000 * k) [1..<Suc (reconnectAttempts (hook_run evs h))])
   \<and> (timers_ok h \<longrightarrow> attempted (hook_run evs h) \<le> length (timers (hook_run evs h)))
   \<and> ((\<forall>ev\<in>set evs. \<not> is_run ev) \<longrightarrow>
        timers (hook_run evs (cleanup h)) = timers h
        \<and> attempted (hook_run evs (cleanup h)) = attempted h)"
proof (intro conjI impI)
  assume a: "mounted h \<and> code \<noteq> 1000 \<and> reconnectAttempts h < 3 \<and> truthy (token h)"
  then have "onclose code h =
     h\<lparr>isConnected := False, wsRef := None, reconnectAttempts := reconnectAttempts h + 1,
       reconnectTimeout := Some (length (timers h)),
       timers := timers h @ [(3000 * (reconnectAttempts h + 1), token h)]\<rparr>"
    by (intro onclose_schedules) simp_all
  then show "reconnectAttempts (onclose code h) = reconnectAttempts h + 1"
    and "delays (onclose code h) = delays h @ [3000 * (reconnectAttempts h + 1)]"
    by (simp_all add: delays_def)
next
  assume q: "code = 1000 \<or> \<not> truthy (token h) \<or> \<not> mounted h \<or> 3 \<le> reconnectAttempts h"
  show "timers (onclose code h) = timers h" using onclose_quiet(1) [OF q] .
  show "attempted (onclose code h) = attempted h" using onclose_quiet(3) [OF q] .
next
  assume nr: "\<forall>ev\<in>set evs. \<not> is_run ev"
  show "timers (hook_run evs (hook_step (Close code) h)) = timers (hook_step (Close code) h)"
    using no_socket_run [OF after_close nr] .
next
  assume a: "Open \<notin> set evs \<and> reconnectAttempts h = 0"
  from run_delays [of evs h] a
  obtain n where n: "reconnectAttempts (hook_run evs h) = n" "n \<le> 3"
    "delays (hook_run evs h) = delays h @ map (\<lambda>k. 3000 * k) [1..<Suc n]"
    by auto
  have s: "scheduled_since h (hook_run evs h) = map (\<lambda>k. 3000 * k) [1..<Suc n]"
    by (simp add: scheduled_since_def n(3)) (simp add: delays_def)
  show "length (scheduled_since h (hook_run evs h)) \<le> 3" using n(2) by (simp add: s)
  show "sorted_wrt (<) (scheduled_since h (hook_run evs h))"
    unfolding s by (rule sorted_multiples)
  show "scheduled_since h (hook_run evs h) =
            map (\<lambda>k. 3000 * k) [1..<Suc (reconnectAttempts (hook_run evs h))]"
    using s n(1) by simp
next
  assume "timers_ok h"
  then show "attempted (hook_run evs h) \<le> length (timers (hook_run evs h))"
    by (intro timers_ok_bound timers_ok_run)
next
  assume nr: "\<forall>ev\<in>set evs. \<not> is_run ev"
  from torn_down_run [OF cleanup_simps(1,2) nr, of h]
  show "timers (hook_run evs (cleanup h)) = timers h"
    and "attempted (hook_run evs (cleanup h)) = attempted h"
    by (simp_all add: cleanup_simps)
qed

theorem reconnection_bounded_witness:
  "mounted closing_hook \<and> (1006::nat) \<noteq> 1000 \<and> reconnectAttempts closing_hook < 3
   \<and> truthy (token closing_hook)
   \<and> delays (onclose 1006 closing_hook) = [3000]
   \<and> Open \<notin> set [Close 1006, Timer 0, Cleanup, Run (Some ''jwt''), Close 1006, Cleanup,
                  Run (Some ''jwt''), Close 1006, Cleanup, Run (Some ''jwt''), Close 1006]
   \<and> reconnectAttempts closing_hook = 0
   \<and> scheduled_since closing_hook
        (hook_run [Close 1006, Timer 0, Cleanup, Run (Some ''jwt''), Close 1006, Cleanup,
                   Run (Some ''jwt''), Close 1006, Cleanup, Run (Some ''jwt''), Close 1006] closing_hook)
      = [3000, 6000, 9000]
   \<and> timers (onclose 1000 closing_hook) = timers closing_hook
   \<and> timers_ok closing_hook
   \<and> \<not> list_ex is_run [Close 1006, Timer 0, Open]
   \<and> timers (hook_run [Close 1006, Timer 0, Open] (cleanup closing_hook)) = []"
proof -
  let ?evs = "[Close 1006, Timer 0, Cleanup, Run (Some ''jwt''), Close 1006, Cleanup,
                   Run (Some ''jwt''), Close 1006, Cleanup, Run (Some ''jwt''), Close 1006]"
  have a: "mounted closing_hook \<and> (1006::nat) \<noteq> 1000 \<and> reconnectAttempts closing_hook < 3
      \<and> truthy (token closing_hook)"
    by (simp add: closing_hook_def truthy_def)
  have b: "Open \<notin> set ?evs \<and> reconnectAttempts closing_hook = 0"
    by (simp add: closing_hook_def)
  have c: "timers_ok closing_hook" by (simp add: timers_ok_def closing_hook_def)
  have d: "\<forall>ev\<in>set [Close 1006, Timer 0, Open]. \<not> is_run ev" by simp
  have e: "reconnectAttempts (hook_run ?evs closing_hook) = 3"
    by (simp add: hook_run_def closing_hook_def onclose_def timer_callback_def effect_body_def
        truthy_def Let_def cleanup_closed)
  have f: "delays closing_hook = []" "timers closing_hook = []"
    by (simp_all add: delays_def closing_hook_def)
  have g: "map (\<lambda>k. 3000 * k) [1..<Suc 3] = [3000, 6000, 9000::nat]"
    by (simp add: upt_conv_Cons)
  note i1 = reconnection_bounded [of closing_hook 1006 ?evs]
  note i2 = reconnection_bounded [of closing_hook 1000 "[Close 1006, Timer 0, Open]"]
  have "delays (onclose 1006 closing_hook) = [3000]" using i1 a b f by simp
  moreover have "scheduled_since closing_hook (hook_run ?evs closing_hook) = [3000, 6000, 9000]"
    using i1 b e g by simp
  moreover have "timers (onclose 1000 closing_hook) = timers closing_hook" using i2 by simp
  moreover have "timers (hook_run [Close 1006, Timer 0, Open] (cleanup closing_hook)) = []"
    using i2 d f by simp
  ultimately show ?thesis using a b c d by simp
qed

end
